(* ===== verification/Prelude.thy ===== *)
theory Prelude
  imports Main "HOL-Library.Char_ord" "HOL-Library.List_Lexorder" "HOL-Library.Multiset"
    "HOL-Library.Code_Target_Numeral"
begin

text \<open>
  What every component shares: the two collections of facts the proofs name, the types that
  stand for Go's basic values, and generic lemmas on lists and on state-passing loops.

  A Go operation that reads or writes something outside its arguments is a function from the
  state to its result and the new state. A Go \<open>time.Time\<close> is an \<open>int\<close>, the nanoseconds since
  the zero time, so that \<open>IsZero\<close> is a test for \<open>0\<close>; a \<open>time.Duration\<close> is an \<open>int\<close> of
  nanoseconds, with the saturation of \<open>Time.Sub\<close> written out.
\<close>

named_theorems go_iff \<open>characterisations of the byte-string operations\<close>
named_theorems effect_intros \<open>what the operations of an interface may change\<close>

section \<open>State-passing operations\<close>

type_synonym ('s, 'a) op = "'s \<Rightarrow> 'a \<times> 's"

text \<open>A loop over a slice, collecting one result per element.\<close>

fun for_each :: "('a \<Rightarrow> ('s, 'b) op) \<Rightarrow> 'a list \<Rightarrow> ('s, 'b list) op" where
  "for_each f [] s = ([], s)"
| "for_each f (x # xs) s =
     (let (y, s1) = f x s; (ys, s2) = for_each f xs s1 in (y # ys, s2))"

lemma for_each_length [simp]: "length (fst (for_each f xs s)) = length xs"
  by (induction xs arbitrary: s) (simp_all add: Let_def split_beta)

lemma for_each_append:
  "for_each f (xs @ ys) s =
     (fst (for_each f xs s) @ fst (for_each f ys (snd (for_each f xs s))),
      snd (for_each f ys (snd (for_each f xs s))))"
  by (induction xs arbitrary: s) (simp_all add: Let_def split_beta)

text \<open>A relation between states that one turn of the loop keeps is kept by the loop.\<close>

lemma for_each_rel:
  assumes "\<And>x s. x \<in> set xs \<Longrightarrow> R s (snd (f x s))"
    and "\<And>s. R s s"
    and "\<And>s t u. R s t \<Longrightarrow> R t u \<Longrightarrow> R s u"
  shows "R s (snd (for_each f xs s))"
  using assms(1)
proof (induction xs arbitrary: s)
  case Nil
  then show ?case using assms(2) by simp
next
  case (Cons x xs)
  have "R s (snd (f x s))" using Cons.prems by simp
  moreover have "R (snd (f x s)) (snd (for_each f xs (snd (f x s))))"
    using Cons.IH Cons.prems by simp
  ultimately show ?case using assms(3) by (auto simp: Let_def split_beta)
qed

text \<open>A loop whose turns leave the state alone is a map.\<close>

lemma for_each_pure:
  assumes "\<And>x. x \<in> set xs \<Longrightarrow> f x s = (g x, s)"
  shows "for_each f xs s = (map g xs, s)"
  using assms by (induction xs) simp_all

section \<open>Time\<close>

type_synonym time = int
type_synonym duration = int

definition second_ns :: duration where "second_ns = 1000000000"
definition hour_ns :: duration where "hour_ns = 3600 * second_ns"

definition is_zero_time :: "time \<Rightarrow> bool" where
  "is_zero_time t \<longleftrightarrow> t = 0"

definition min_duration :: duration where "min_duration = - (2 ^ 63)"
definition max_duration :: duration where "max_duration = 2 ^ 63 - 1"

text \<open>\<open>Time.Sub\<close> saturates at the ends of \<open>int64\<close>.\<close>

definition time_sub :: "time \<Rightarrow> time \<Rightarrow> duration" where
  "time_sub t u = max min_duration (min max_duration (t - u))"

text \<open>The saturation is invisible to a comparison with a duration within the bounds.\<close>

lemma time_sub_greater: "min_duration \<le> d \<Longrightarrow> d < max_duration \<Longrightarrow> time_sub t u > d \<longleftrightarrow> t - u > d"
  by (auto simp: time_sub_def)

lemma time_sub_at_most: "min_duration \<le> d \<Longrightarrow> d < max_duration \<Longrightarrow> time_sub t u \<le> d \<longleftrightarrow> t - u \<le> d"
  using time_sub_greater [of d t u] by (simp add: not_less [symmetric])

section \<open>Lists\<close>

lemma list_ex_mono_set: "list_ex P xs \<Longrightarrow> set xs \<subseteq> set ys \<Longrightarrow> list_ex P ys"
  by (auto simp: list_ex_iff)

lemma filter_filter_implies:
  "(\<And>x. P x \<Longrightarrow> Q x) \<Longrightarrow> filter P (filter Q xs) = filter P xs"
  by (induction xs) auto

text \<open>Two slices that agree after sorting hold the same elements as often.\<close>

lemma sort_eq_iff_mset: "sort xs = sort ys \<longleftrightarrow> mset xs = mset ys"
  by (metis mset_sort sorted_list_of_multiset_mset)

end
