(* ===== verification/Go_Strings.thy ===== *)
theory Go_Strings
  imports Prelude
begin

text \<open>
  The parts of Go's \<open>strings\<close> and \<open>strconv\<close> packages the program uses, on Go's strings, which
  are sequences of bytes: \<open>HasPrefix\<close>, \<open>HasSuffix\<close>, \<open>TrimSuffix\<close>, \<open>Index\<close>, \<open>Split\<close>, \<open>Cut\<close>,
  \<open>Join\<close>, \<open>FieldsFunc\<close>, \<open>TrimSpace\<close>, \<open>EqualFold\<close>, \<open>ToUpper\<close>, \<open>ReplaceAll\<close>, \<open>FormatInt\<close> and
  \<open>ParseInt\<close>. White space is that of \<open>unicode.IsSpace\<close>, by its UTF-8 encodings.
\<close>

section \<open>Prefixes and suffixes\<close>

definition has_prefix :: "string \<Rightarrow> string \<Rightarrow> bool" where
  "has_prefix s p \<longleftrightarrow> take (length p) s = p"

definition has_suffix :: "string \<Rightarrow> string \<Rightarrow> bool" where
  "has_suffix s p \<longleftrightarrow> length p \<le> length s \<and> drop (length s - length p) s = p"

definition trim_suffix :: "string \<Rightarrow> string \<Rightarrow> string" where
  "trim_suffix s p = (if has_suffix s p then take (length s - length p) s else s)"

lemma has_prefix_iff [go_iff]: "has_prefix s p \<longleftrightarrow> (\<exists>r. s = p @ r)"
  by (metis append_eq_conv_conj append_take_drop_id has_prefix_def)

lemma has_suffix_iff [go_iff]: "has_suffix s p \<longleftrightarrow> (\<exists>r. s = r @ p)"
proof
  assume "has_suffix s p"
  then have "drop (length s - length p) s = p" by (simp add: has_suffix_def)
  then show "\<exists>r. s = r @ p" by (metis append_take_drop_id)
qed (auto simp: has_suffix_def)

lemma has_prefix_self [simp]: "has_prefix s s" and has_prefix_Nil [simp]: "has_prefix s []"
  by (simp_all add: has_prefix_def)

lemma has_prefix_append [simp]: "has_prefix (p @ r) p"
  by (simp add: has_prefix_def)

lemma has_prefix_trans: "has_prefix s p \<Longrightarrow> has_prefix p q \<Longrightarrow> has_prefix s q"
  by (auto simp: go_iff)

lemma has_prefix_Cons [simp]:
  "has_prefix (c # s) (d # p) \<longleftrightarrow> c = d \<and> has_prefix s p"
  by (auto simp: has_prefix_def)

lemma has_prefix_Nil_left [simp]: "has_prefix [] p \<longleftrightarrow> p = []"
  by (auto simp: has_prefix_def)

text \<open>Two prefixes of one string: one of them is a prefix of the other.\<close>

lemma has_prefix_comparable:
  "has_prefix s p \<Longrightarrow> has_prefix s q \<Longrightarrow> has_prefix p q \<or> has_prefix q p"
  by (auto simp: go_iff append_eq_append_conv2)

lemma trim_suffix_cases:
  obtains "s = trim_suffix s p @ p" | "\<not> has_suffix s p" "trim_suffix s p = s"
proof (cases "has_suffix s p")
  case True
  then have "s = trim_suffix s p @ p"
    by (auto simp: trim_suffix_def has_suffix_iff)
  then show ?thesis by (rule that(1))
next
  case False
  then show ?thesis by (intro that(2)) (simp_all add: trim_suffix_def)
qed

section \<open>Searching\<close>

text \<open>\<open>strings.Index\<close>: the position of the first occurrence, \<open>None\<close> for \<open>-1\<close>.\<close>

fun index_of :: "string \<Rightarrow> string \<Rightarrow> nat option" where
  "index_of [] sub = (if sub = [] then Some 0 else None)"
| "index_of (c # s) sub =
     (if has_prefix (c # s) sub then Some 0 else map_option Suc (index_of s sub))"

definition contains_str :: "string \<Rightarrow> string \<Rightarrow> bool" where
  "contains_str s sub \<longleftrightarrow> index_of s sub \<noteq> None"

lemma index_of_Some:
  "index_of s sub = Some n \<Longrightarrow> s = take n s @ sub @ drop (n + length sub) s"
proof (induction s arbitrary: n)
  case Nil
  then show ?case by (simp split: if_splits)
next
  case (Cons c s)
  show ?case
  proof (cases "has_prefix (c # s) sub")
    case True
    then show ?thesis
      using Cons.prems by (auto simp: has_prefix_iff)
  next
    case False
    with Cons.prems obtain m where "index_of s sub = Some m" "n = Suc m" by auto
    with Cons.IH show ?thesis by simp
  qed
qed

text \<open>The leftmost occurrence leaves the longest rest.\<close>

lemma index_of_leftmost:
  "s = u @ sub @ v \<Longrightarrow> \<exists>n. index_of s sub = Some n \<and> n \<le> length u"
proof (induction s arbitrary: u)
  case Nil
  then show ?case by simp
next
  case (Cons c s)
  show ?case
  proof (cases "has_prefix (c # s) sub")
    case True
    then show ?thesis by simp
  next
    case False
    with Cons.prems obtain u' where u': "u = c # u'"
      by (cases u) (auto simp: has_prefix_iff)
    with Cons.prems have "s = u' @ sub @ v" by simp
    then obtain m where "index_of s sub = Some m" "m \<le> length u'" using Cons.IH by blast
    with False u' show ?thesis by simp
  qed
qed

lemma contains_str_iff [go_iff]: "contains_str s sub \<longleftrightarrow> (\<exists>u v. s = u @ sub @ v)"
proof
  assume "contains_str s sub"
  then obtain n where "index_of s sub = Some n" by (auto simp: contains_str_def)
  from index_of_Some [OF this] show "\<exists>u v. s = u @ sub @ v" by metis
next
  assume "\<exists>u v. s = u @ sub @ v"
  then obtain u v where "s = u @ sub @ v" by blast
  then show "contains_str s sub"
    using index_of_leftmost [of s u sub v] by (auto simp: contains_str_def)
qed

text \<open>One-byte searches, as in \<open>strings.Index(path, "*")\<close>.\<close>

lemma index_of_char:
  "index_of s [c] = Some n \<Longrightarrow> s = take n s @ c # drop (Suc n) s \<and> c \<notin> set (take n s)"
proof (induction s arbitrary: n)
  case (Cons d s)
  then show ?case
    by (cases "d = c") auto
qed simp

lemma index_of_char_None: "index_of s [c] = None \<longleftrightarrow> c \<notin> set s"
  by (induction s) auto

section \<open>Splitting and joining\<close>

text \<open>\<open>strings.Split\<close> with a separator of one byte: always at least one piece.\<close>

fun split_char :: "char \<Rightarrow> string \<Rightarrow> string list" where
  "split_char d [] = [[]]"
| "split_char d (c # s) =
     (if c = d then [] # split_char d s
      else (case split_char d s of [] \<Rightarrow> [[c]] | x # xs \<Rightarrow> (c # x) # xs))"

fun join_with :: "string \<Rightarrow> string list \<Rightarrow> string" where
  "join_with sep [] = []"
| "join_with sep [x] = x"
| "join_with sep (x # y # ys) = x @ sep @ join_with sep (y # ys)"

lemma join_with_Cons: "xs \<noteq> [] \<Longrightarrow> join_with sep (x # xs) = x @ sep @ join_with sep xs"
  by (cases xs) simp_all

lemma join_with_append:
  "xs \<noteq> [] \<Longrightarrow> ys \<noteq> [] \<Longrightarrow> join_with sep (xs @ ys) = join_with sep xs @ sep @ join_with sep ys"
proof (induction xs)
  case (Cons x xs)
  then show ?case by (cases xs) (simp_all add: join_with_Cons)
qed simp

lemma split_char_not_Nil [simp]: "split_char d s \<noteq> []"
  by (induction s) (auto split: list.splits)

lemma split_char_no_sep: "d \<notin> set s \<Longrightarrow> split_char d s = [s]"
  by (induction s) (auto split: list.splits)

lemma split_char_append:
  "d \<notin> set s \<Longrightarrow> split_char d (s @ d # t) = s # split_char d t"
  by (induction s) auto

lemma join_split_char: "join_with [d] (split_char d s) = s"
proof (induction s)
  case (Cons c s)
  obtain x xs where x: "split_char d s = x # xs" by (meson list.exhaust split_char_not_Nil)
  with Cons show ?case by (cases xs) auto
qed simp

lemma split_char_pieces: "x \<in> set (split_char d s) \<Longrightarrow> d \<notin> set x"
proof (induction s arbitrary: x)
  case (Cons c s)
  then show ?case by (cases "split_char d s") (auto split: if_splits)
qed simp

lemma set_split_char: "x \<in> set (split_char d s) \<Longrightarrow> set x \<subseteq> set s"
proof (induction s arbitrary: x)
  case (Cons c s)
  then show ?case by (cases "split_char d s") (force split: if_splits)+
qed simp

lemma split_join:
  "xs \<noteq> [] \<Longrightarrow> \<forall>x \<in> set xs. d \<notin> set x \<Longrightarrow> split_char d (join_with [d] xs) = xs"
proof (induction xs)
  case (Cons x xs)
  then show ?case
    by (cases xs) (simp_all add: split_char_no_sep split_char_append)
qed simp

lemma set_join_with: "set (join_with sep xs) \<subseteq> set sep \<union> (\<Union>x \<in> set xs. set x)"
  by (induction sep xs rule: join_with.induct) auto

text \<open>\<open>strings.Cut\<close> at a separator of one byte.\<close>

definition cut_char :: "char \<Rightarrow> string \<Rightarrow> (string \<times> string) option" where
  "cut_char d s = (case index_of s [d] of None \<Rightarrow> None
                   | Some n \<Rightarrow> Some (take n s, drop (Suc n) s))"

lemma cut_char_Some: "cut_char d s = Some (k, v) \<longleftrightarrow> s = k @ d # v \<and> d \<notin> set k"
proof
  assume "cut_char d s = Some (k, v)"
  then obtain n where "index_of s [d] = Some n" "k = take n s" "v = drop (Suc n) s"
    by (auto simp: cut_char_def split: option.splits)
  with index_of_char [of s d n] show "s = k @ d # v \<and> d \<notin> set k" by simp
next
  assume s: "s = k @ d # v \<and> d \<notin> set k"
  have "d \<notin> set k \<Longrightarrow> index_of (k @ d # v) [d] = Some (length k)"
    by (induction k) auto
  with s show "cut_char d s = Some (k, v)" by (simp add: cut_char_def)
qed

text \<open>\<open>strings.FieldsFunc\<close> for a separator test on ASCII bytes.\<close>

function fields_func :: "(char \<Rightarrow> bool) \<Rightarrow> string \<Rightarrow> string list" where
  "fields_func p [] = []"
| "fields_func p (c # s) =
     (if p c then fields_func p s
      else (c # takeWhile (\<lambda>x. \<not> p x) s) # fields_func p (dropWhile (\<lambda>x. \<not> p x) s))"
  by pat_completeness auto
termination
  by (relation "measure (\<lambda>(p, s). length s)") (auto simp: le_imp_less_Suc length_dropWhile_le)

lemma fields_func_one: "s \<noteq> [] \<Longrightarrow> \<forall>c \<in> set s. \<not> p c \<Longrightarrow> fields_func p s = [s]"
proof (cases s)
  case (Cons c cs)
  moreover assume "\<forall>c \<in> set s. \<not> p c"
  ultimately have "takeWhile (\<lambda>x. \<not> p x) cs = cs" "dropWhile (\<lambda>x. \<not> p x) cs = []" "\<not> p c"
    by (auto simp: takeWhile_eq_all_conv dropWhile_eq_Nil_conv)
  then show ?thesis unfolding Cons by (simp only: fields_func.simps if_False)
qed simp

lemma fields_func_pieces:
  "x \<in> set (fields_func p s) \<Longrightarrow> x \<noteq> [] \<and> (\<forall>c \<in> set x. \<not> p c)"
proof (induction p s rule: fields_func.induct)
  case (2 p c s)
  show ?case
  proof (cases "p c")
    case True
    with 2 show ?thesis by simp
  next
    case False
    with "2.prems" have "x = c # takeWhile (\<lambda>x. \<not> p x) s \<or>
        x \<in> set (fields_func p (dropWhile (\<lambda>x. \<not> p x) s))" by simp
    then show ?thesis
    proof
      assume x: "x = c # takeWhile (\<lambda>x. \<not> p x) s"
      have "\<forall>d \<in> set (takeWhile (\<lambda>x. \<not> p x) s). \<not> p d"
        by (blast dest: set_takeWhileD)
      with x False show ?thesis by simp
    next
      assume "x \<in> set (fields_func p (dropWhile (\<lambda>x. \<not> p x) s))"
      then show ?thesis by (rule "2.IH"(2) [OF False])
    qed
  qed
qed simp

section \<open>White space\<close>

definition space_encodings :: "string list" where
  "space_encodings =
     [[CHR 0x09], [CHR 0x0A], [CHR 0x0B], [CHR 0x0C], [CHR 0x0D], [CHR 0x20],
      [CHR 0xC2, CHR 0x85], [CHR 0xC2, CHR 0xA0], [CHR 0xE1, CHR 0x9A, CHR 0x80],
      [CHR 0xE2, CHR 0x80, CHR 0x80], [CHR 0xE2, CHR 0x80, CHR 0x81], [CHR 0xE2, CHR 0x80, CHR 0x82],
      [CHR 0xE2, CHR 0x80, CHR 0x83], [CHR 0xE2, CHR 0x80, CHR 0x84], [CHR 0xE2, CHR 0x80, CHR 0x85],
      [CHR 0xE2, CHR 0x80, CHR 0x86], [CHR 0xE2, CHR 0x80, CHR 0x87], [CHR 0xE2, CHR 0x80, CHR 0x88],
      [CHR 0xE2, CHR 0x80, CHR 0x89], [CHR 0xE2, CHR 0x80, CHR 0x8A], [CHR 0xE2, CHR 0x80, CHR 0xA8],
      [CHR 0xE2, CHR 0x80, CHR 0xA9], [CHR 0xE2, CHR 0x80, CHR 0xAF], [CHR 0xE2, CHR 0x81, CHR 0x9F],
      [CHR 0xE3, CHR 0x80, CHR 0x80]]"

text \<open>Drop leading members of a set of encodings, until none is at the head.\<close>

function trim_by :: "string list \<Rightarrow> string \<Rightarrow> string" where
  "trim_by ws s =
     (case find (\<lambda>w. w \<noteq> [] \<and> has_prefix s w) ws of
        None \<Rightarrow> s
      | Some w \<Rightarrow> trim_by ws (drop (length w) s))"
  by pat_completeness auto
termination
proof (relation "measure (\<lambda>(ws, s). length s)", simp)
  fix ws s w
  assume "find (\<lambda>w. w \<noteq> [] \<and> has_prefix s w) ws = Some w"
  then have "w \<noteq> []" "has_prefix s w" by (auto simp: find_Some_iff)
  then show "((ws, drop (length w) s), (ws, s)) \<in> measure (\<lambda>(ws, s). length s)"
    by (auto simp: has_prefix_iff)
qed

declare trim_by.simps [simp del]

definition trim_space :: "string \<Rightarrow> string" where
  "trim_space s = rev (trim_by (map rev space_encodings) (rev (trim_by space_encodings s)))"

lemma trim_by_None: "find (\<lambda>w. w \<noteq> [] \<and> has_prefix s w) ws = None \<Longrightarrow> trim_by ws s = s"
  by (simp add: trim_by.simps [of ws s])

lemma trim_by_Some:
  "find (\<lambda>w. w \<noteq> [] \<and> has_prefix s w) ws = Some w \<Longrightarrow> trim_by ws s = trim_by ws (drop (length w) s)"
  by (simp add: trim_by.simps [of ws s])

lemma trim_by_suffix: "\<exists>u. s = u @ trim_by ws s"
proof (induction ws s rule: trim_by.induct)
  case (1 ws s)
  show ?case
  proof (cases "find (\<lambda>w. w \<noteq> [] \<and> has_prefix s w) ws")
    case None
    then show ?thesis by (simp add: trim_by_None)
  next
    case (Some w)
    with "1.IH" obtain u where "drop (length w) s = u @ trim_by ws (drop (length w) s)" by blast
    then have "s = (take (length w) s @ u) @ trim_by ws s"
      using trim_by_Some [OF Some] by (metis append.assoc append_take_drop_id)
    then show ?thesis by blast
  qed
qed

lemma trim_by_done:
  "w \<in> set ws \<Longrightarrow> w \<noteq> [] \<Longrightarrow> \<not> has_prefix (trim_by ws s) w"
proof (induction ws s rule: trim_by.induct)
  case (1 ws s)
  show ?case
  proof (cases "find (\<lambda>w. w \<noteq> [] \<and> has_prefix s w) ws")
    case None
    with "1.prems" have "\<not> has_prefix s w" by (auto simp: find_None_iff)
    with None show ?thesis by (simp add: trim_by_None)
  next
    case (Some w')
    with 1 show ?thesis by (simp add: trim_by_Some)
  qed
qed

lemma trim_by_id: "(\<And>w. w \<in> set ws \<Longrightarrow> w \<noteq> [] \<Longrightarrow> \<not> has_prefix s w) \<Longrightarrow> trim_by ws s = s"
proof -
  assume "\<And>w. w \<in> set ws \<Longrightarrow> w \<noteq> [] \<Longrightarrow> \<not> has_prefix s w"
  then have "find (\<lambda>w. w \<noteq> [] \<and> has_prefix s w) ws = None" by (auto simp: find_None_iff)
  then show ?thesis by (rule trim_by_None)
qed

lemma trim_space_no_prefix:
  assumes "w \<in> set space_encodings" "w \<noteq> []"
  shows "\<not> has_prefix (trim_space s) w"
proof
  assume "has_prefix (trim_space s) w"
  moreover obtain u where "rev (trim_by space_encodings s) = u @ rev (trim_space s)"
    using trim_by_suffix [of "rev (trim_by space_encodings s)" "map rev space_encodings"]
    by (auto simp: trim_space_def)
  then have "trim_by space_encodings s = trim_space s @ rev u"
    by (metis rev_append rev_rev_ident)
  ultimately have "has_prefix (trim_by space_encodings s) w" by (auto simp: has_prefix_iff)
  with trim_by_done [OF assms] show False by blast
qed

lemma trim_space_no_suffix:
  assumes "w \<in> set space_encodings" "w \<noteq> []"
  shows "\<not> has_prefix (rev (trim_space s)) (rev w)"
  using trim_by_done [of "rev w" "map rev space_encodings"] assms by (simp add: trim_space_def)

lemma trim_space_idem [simp]: "trim_space (trim_space s) = trim_space s"
proof -
  have "trim_by space_encodings (trim_space s) = trim_space s"
    by (rule trim_by_id) (blast dest: trim_space_no_prefix)
  moreover have "trim_by (map rev space_encodings) (rev (trim_space s)) = rev (trim_space s)"
    by (rule trim_by_id) (auto dest: trim_space_no_suffix)
  ultimately show ?thesis by (simp add: trim_space_def [of "trim_space s"])
qed

lemma set_trim_by: "set (trim_by ws s) \<subseteq> set s"
  using trim_by_suffix [of s ws] by (metis set_append Un_upper2)

lemma set_trim_space: "set (trim_space s) \<subseteq> set s"
  using set_trim_by [of space_encodings s]
    set_trim_by [of "map rev space_encodings" "rev (trim_by space_encodings s)"]
  by (simp add: trim_space_def)

lemma trim_space_id_iff:
  "trim_space s = s \<longleftrightarrow> (\<forall>w \<in> set space_encodings. \<not> has_prefix s w \<and> \<not> has_suffix s w)"
proof
  have full: "w \<noteq> []" if "w \<in> set space_encodings" for w
    using that by (auto simp: space_encodings_def)
  have flip: "has_prefix (rev s) (rev w) \<longleftrightarrow> has_suffix s w" for w
    by (metis has_prefix_iff has_suffix_iff rev_append rev_rev_ident)
  show "\<forall>w \<in> set space_encodings. \<not> has_prefix s w \<and> \<not> has_suffix s w" if "trim_space s = s"
    using full trim_space_no_prefix [of _ s] trim_space_no_suffix [of _ s] by (simp add: that flip)
  assume none: "\<forall>w \<in> set space_encodings. \<not> has_prefix s w \<and> \<not> has_suffix s w"
  have "trim_by space_encodings s = s" by (rule trim_by_id) (use none in blast)
  moreover have "trim_by (map rev space_encodings) (rev s) = rev s"
    by (rule trim_by_id) (use none flip in auto)
  ultimately show "trim_space s = s" by (simp add: trim_space_def)
qed

text \<open>A byte no white space is spelled with shields what stands before it, and after it.\<close>

definition shields :: "char \<Rightarrow> bool" where
  "shields c \<longleftrightarrow> list_all (\<lambda>w. c \<notin> set w) space_encodings"

lemma trim_space_shielded:
  assumes "shields c" "shields d" "trim_space v = v"
  shows "trim_space (c # p @ d # v) = c # p @ d # v" "trim_space (c # v) = c # v"
proof -
  have suffix: "\<not> has_suffix (x @ e # v) w" if "w \<in> set space_encodings" "shields e" for w x e
  proof
    have "e \<notin> set w" using that by (auto simp: shields_def list_all_iff)
    moreover assume "has_suffix (x @ e # v) w"
    ultimately have "has_suffix v w"
      by (auto simp: has_suffix_iff append_eq_append_conv2 append_eq_Cons_conv Cons_eq_append_conv)
    with that(1) assms(3) show False by (simp add: trim_space_id_iff)
  qed
  have prefix: "\<not> has_prefix (c # s) w" if "w \<in> set space_encodings" for s w
    using that assms(1) by (auto simp: has_prefix_iff shields_def list_all_iff space_encodings_def)
  show "trim_space (c # p @ d # v) = c # p @ d # v"
    using prefix suffix [of _ d "c # p"] assms(2) unfolding trim_space_id_iff by simp
  show "trim_space (c # v) = c # v"
    using prefix suffix [of _ c "[]"] assms(1) unfolding trim_space_id_iff by simp
qed

section \<open>Case\<close>

definition ascii_lower :: "char \<Rightarrow> char" where
  "ascii_lower c = (if CHR ''A'' \<le> c \<and> c \<le> CHR ''Z'' then char_of (of_char c + 32 :: nat) else c)"

definition ascii_upper :: "char \<Rightarrow> char" where
  "ascii_upper c = (if CHR ''a'' \<le> c \<and> c \<le> CHR ''z'' then char_of (of_char c - 32 :: nat) else c)"

text \<open>
  \<open>strings.EqualFold\<close>. Every call of the program compares with an ASCII constant, and the only
  runes outside ASCII that fold to an ASCII letter are U+017F (to \<open>s\<close>) and U+212A (to \<open>k\<close>),
  which are folded here by their encodings; the comparison is then exact for such a constant.
\<close>

fun fold_case :: "string \<Rightarrow> string" where
  "fold_case [] = []"
| "fold_case (c # s) =
     (if c = CHR 0xC5 \<and> has_prefix s [CHR 0xBF] then CHR ''s'' # fold_case (drop 1 s)
      else if c = CHR 0xE2 \<and> has_prefix s [CHR 0x84, CHR 0xAA] then CHR ''k'' # fold_case (drop 2 s)
      else ascii_lower c # fold_case s)"

definition equal_fold :: "string \<Rightarrow> string \<Rightarrow> bool" where
  "equal_fold s t \<longleftrightarrow> fold_case s = fold_case t"

lemma equal_fold_refl [simp]: "equal_fold s s"
  by (simp add: equal_fold_def)

lemma equal_fold_sym: "equal_fold s t \<longleftrightarrow> equal_fold t s"
  by (auto simp: equal_fold_def)

lemma equal_fold_trans: "equal_fold s t \<Longrightarrow> equal_fold t u \<Longrightarrow> equal_fold s u"
  by (simp add: equal_fold_def)

text \<open>
  \<open>strings.ToUpper\<close> on ASCII letters and on the two runes outside ASCII whose upper case is an
  ASCII letter, U+017F and U+0131; other bytes are kept. A result made of ASCII letters only is
  therefore exact, which is all \<open>readRules\<close> looks at.
\<close>

fun to_upper :: "string \<Rightarrow> string" where
  "to_upper [] = []"
| "to_upper (c # s) =
     (if c = CHR 0xC5 \<and> has_prefix s [CHR 0xBF] then CHR ''S'' # to_upper (drop 1 s)
      else if c = CHR 0xC4 \<and> has_prefix s [CHR 0xB1] then CHR ''I'' # to_upper (drop 1 s)
      else ascii_upper c # to_upper s)"

section \<open>Replacing\<close>

text \<open>\<open>strings.ReplaceAll\<close> for a needle that is not empty: leftmost occurrences, not overlapping.\<close>

function replace_all :: "string \<Rightarrow> string \<Rightarrow> string \<Rightarrow> string" where
  "replace_all [] old new = []"
| "replace_all (c # s) old new =
     (if old \<noteq> [] \<and> has_prefix (c # s) old
      then new @ replace_all (drop (length old) (c # s)) old new
      else c # replace_all s old new)"
  by pat_completeness auto
termination
  by (relation "measure (\<lambda>(s, old, new). length s)") auto

section \<open>Decimal integers\<close>

definition digit_char :: "nat \<Rightarrow> char" where
  "digit_char n = char_of (48 + n)"

definition is_digit :: "char \<Rightarrow> bool" where
  "is_digit c \<longleftrightarrow> CHR ''0'' \<le> c \<and> c \<le> CHR ''9''"

definition digit_val :: "char \<Rightarrow> nat" where
  "digit_val c = of_char c - 48"

fun nat_digits :: "nat \<Rightarrow> string" where
  "nat_digits n =
     (if n < 10 then [digit_char n] else nat_digits (n div 10) @ [digit_char (n mod 10)])"

declare nat_digits.simps [simp del]

fun digits_val :: "nat \<Rightarrow> string \<Rightarrow> nat option" where
  "digits_val acc [] = Some acc"
| "digits_val acc (c # s) =
     (if is_digit c then digits_val (acc * 10 + digit_val c) s else None)"

text \<open>\<open>strconv.FormatInt(i, 10)\<close> and \<open>strconv.ParseInt(s, 10, 64)\<close>.\<close>

definition format_int :: "int \<Rightarrow> string" where
  "format_int i = (if i < 0 then CHR ''-'' # nat_digits (nat (- i)) else nat_digits (nat i))"

definition parse_int64 :: "string \<Rightarrow> int option" where
  "parse_int64 s =
     (let negative = has_prefix s ''-'';
          body = (if negative \<or> has_prefix s ''+'' then drop 1 s else s)
      in if body = [] then None
         else case digits_val 0 body of
             None \<Rightarrow> None
           | Some n \<Rightarrow>
               if negative then (if n \<le> 2 ^ 63 then Some (- int n) else None)
               else (if n < 2 ^ 63 then Some (int n) else None))"

definition int64_range :: "int \<Rightarrow> bool" where
  "int64_range i \<longleftrightarrow> - (2 ^ 63) \<le> i \<and> i < 2 ^ 63"

lemma of_char_digit_char [simp]: "n < 10 \<Longrightarrow> (of_char (digit_char n) :: nat) = 48 + n"
  by (simp add: digit_char_def)

lemma is_digit_iff: "is_digit c \<longleftrightarrow> 48 \<le> (of_char c :: nat) \<and> (of_char c :: nat) \<le> 57"
  by (simp add: is_digit_def less_eq_char_def)

lemma is_digit_digit_char [simp]: "n < 10 \<Longrightarrow> is_digit (digit_char n)"
  by (simp add: is_digit_iff)

lemma digit_val_digit_char [simp]: "n < 10 \<Longrightarrow> digit_val (digit_char n) = n"
  by (simp add: digit_val_def)

lemma digits_val_append:
  "digits_val acc (s @ t) = (case digits_val acc s of None \<Rightarrow> None | Some a \<Rightarrow> digits_val a t)"
  by (induction s arbitrary: acc) auto

lemma digits_val_nat_digits:
  "digits_val acc (nat_digits n) = Some (acc * 10 ^ length (nat_digits n) + n)"
proof (induction n arbitrary: acc rule: nat_digits.induct)
  case (1 n)
  show ?case
  proof (cases "n < 10")
    case True
    then show ?thesis by (simp add: nat_digits.simps [of n])
  next
    case False
    then have "digits_val acc (nat_digits (n div 10)) =
        Some (acc * 10 ^ length (nat_digits (n div 10)) + n div 10)"
      using "1.IH" by simp
    with False show ?thesis
      by (simp add: nat_digits.simps [of n] digits_val_append algebra_simps)
  qed
qed

lemma nat_digits_not_Nil [simp]: "nat_digits n \<noteq> []"
  by (simp add: nat_digits.simps [of n])

lemma nat_digits_all_digits: "c \<in> set (nat_digits n) \<Longrightarrow> is_digit c"
proof (induction n rule: nat_digits.induct)
  case (1 n)
  then show ?case by (cases "n < 10") (auto simp: nat_digits.simps [of n])
qed

lemma nat_digits_no_sign:
  assumes "\<not> is_digit c"
  shows "\<not> has_prefix (nat_digits n) [c]"
proof
  assume "has_prefix (nat_digits n) [c]"
  then have "c \<in> set (nat_digits n)" by (auto simp: has_prefix_iff)
  with assms show False by (blast dest: nat_digits_all_digits)
qed

lemma sign_not_digit [simp]: "\<not> is_digit (CHR ''-'')" "\<not> is_digit (CHR ''+'')" "\<not> is_digit (CHR ''/'')"
  by (simp_all add: is_digit_def)

lemma trim_space_shields: "list_all shields s \<Longrightarrow> trim_space s = s"
proof -
  assume s: "list_all shields s"
  have "\<not> set w \<subseteq> set s" if w: "w \<in> set space_encodings" for w
  proof -
    have "w \<noteq> []" using w by (auto simp: space_encodings_def)
    then have "hd w \<in> set w" by simp
    with w s show ?thesis by (auto simp: shields_def list_all_iff)
  qed
  then show ?thesis by (fastforce simp: trim_space_id_iff has_prefix_iff has_suffix_iff)
qed

lemma is_digit_shields: "is_digit c \<Longrightarrow> shields c"
  by (auto simp: shields_def space_encodings_def is_digit_iff)

lemma trim_format_int [simp]: "trim_space (format_int i) = format_int i"
proof (rule trim_space_shields)
  have "shields (CHR ''-'')" by code_simp
  then show "list_all shields (format_int i)"
    using nat_digits_all_digits is_digit_shields by (auto simp: format_int_def list_all_iff)
qed

text \<open>Formatting an identifier and reading it back is the identity on \<open>int64\<close>.\<close>

lemma parse_format_int [simp]:
  assumes "int64_range i"
  shows "parse_int64 (format_int i) = Some i"
proof (cases "i < 0")
  case True
  with assms have "nat (- i) \<le> 2 ^ 63" by (simp add: int64_range_def)
  with True show ?thesis
    by (simp add: parse_int64_def format_int_def digits_val_nat_digits)
next
  case False
  with assms have "nat i < 2 ^ 63" by (simp add: int64_range_def nat_less_iff)
  with False show ?thesis
    by (simp add: parse_int64_def format_int_def digits_val_nat_digits nat_digits_no_sign)
qed

lemma nat_digits_inject [simp]: "nat_digits m = nat_digits n \<longleftrightarrow> m = n"
  by (metis add_0 digits_val_nat_digits mult_0 option.inject)

lemma format_int_inject [simp]: "format_int i = format_int j \<longleftrightarrow> i = j"
proof
  assume eq: "format_int i = format_int j"
  have "\<not> has_prefix (nat_digits n) ''-''" for n by (rule nat_digits_no_sign) simp
  then have "i < 0 \<longleftrightarrow> j < 0"
    using eq by (auto simp: format_int_def split: if_splits) (metis has_prefix_Cons has_prefix_Nil)+
  with eq show "i = j" by (auto simp: format_int_def split: if_splits)
qed simp

end
