(* ===== verification/Go_Netip.thy ===== *)
theory Go_Netip
  imports Go_Strings "HOL-Library.Word"
begin

text \<open>
  The parts of Go's \<open>net/netip\<close> the program uses. An address is a \<open>32 word\<close>, or a \<open>128 word\<close>
  with its zone; a prefix is an address without a zone and a number of leading bits.
  \<open>ParseAddr\<close>, \<open>ParsePrefix\<close>, \<open>PrefixFrom\<close>, \<open>Masked\<close>, \<open>Contains\<close>, \<open>Unmap\<close>, \<open>Is4In6\<close> and
  \<open>String\<close> follow the package. The invalid zero values of both types are the \<open>None\<close> of the
  parsers and are not values here.
\<close>

unbundle bit_operations_syntax

section \<open>Addresses\<close>

datatype addr = V4 "32 word" | V6 "128 word" string

fun bit_len :: "addr \<Rightarrow> nat" where
  "bit_len (V4 _) = 32"
| "bit_len (V6 _ _) = 128"

fun addr_zone :: "addr \<Rightarrow> string" where
  "addr_zone (V4 _) = []"
| "addr_zone (V6 _ z) = z"

fun without_zone :: "addr \<Rightarrow> addr" where
  "without_zone (V4 w) = V4 w"
| "without_zone (V6 w _) = V6 w []"

fun is_4in6 :: "addr \<Rightarrow> bool" where
  "is_4in6 (V4 _) = False"
| "is_4in6 (V6 w _) = (drop_bit 32 w = 0xFFFF)"

fun unmap :: "addr \<Rightarrow> addr" where
  "unmap (V4 w) = V4 w"
| "unmap (V6 w z) = (if drop_bit 32 w = 0xFFFF then V4 (ucast w) else V6 w z)"

text \<open>\<open>ip.Is4() && ...\<close>: \<open>Is4\<close> and \<open>Is6\<close> tell the families apart, a mapped address being IPv6.\<close>

fun same_family :: "addr \<Rightarrow> addr \<Rightarrow> bool" where
  "same_family (V4 _) (V4 _) = True"
| "same_family (V6 _ _) (V6 _ _) = True"
| "same_family _ _ = False"

section \<open>Prefixes\<close>

datatype prefix = Prefix (pfx_addr: addr) (pfx_bits: nat)

definition prefix_from :: "addr \<Rightarrow> nat \<Rightarrow> prefix" where
  "prefix_from a n = Prefix (without_zone a) n"

definition valid_prefix :: "prefix \<Rightarrow> bool" where
  "valid_prefix p \<longleftrightarrow> pfx_bits p \<le> bit_len (pfx_addr p) \<and> addr_zone (pfx_addr p) = []"

definition keep_top :: "nat \<Rightarrow> 'a::len word \<Rightarrow> 'a word" where
  "keep_top n w = push_bit (LENGTH('a) - n) (drop_bit (LENGTH('a) - n) w)"

fun masked :: "prefix \<Rightarrow> prefix" where
  "masked (Prefix (V4 w) n) = Prefix (V4 (keep_top n w)) n"
| "masked (Prefix (V6 w z) n) = Prefix (V6 (keep_top n w) z) n"

text \<open>An address with a zone is in no prefix, and the families do not mix.\<close>

fun pfx_contains :: "prefix \<Rightarrow> addr \<Rightarrow> bool" where
  "pfx_contains (Prefix (V4 w) n) (V4 x) = (drop_bit (32 - n) (w XOR x) = 0)"
| "pfx_contains (Prefix (V6 w _) n) (V6 x z) = (z = [] \<and> drop_bit (128 - n) (w XOR x) = 0)"
| "pfx_contains _ _ = False"

lemma drop_bit_keep_top [simp]:
  fixes w :: "'a::len word"
  shows "drop_bit (LENGTH('a) - n) (keep_top n w) = drop_bit (LENGTH('a) - n) w"
  by (rule bit_word_eqI) (auto simp: keep_top_def bit_simps dest: bit_imp_le_length)

lemma keep_top_idem [simp]: "keep_top n (keep_top n w) = keep_top n w"
  by (simp add: keep_top_def [of n "keep_top n w"]) (simp add: keep_top_def)

lemma xor_zero_iff [simp]:
  fixes w x :: "'a::len word"
  shows "w XOR x = 0 \<longleftrightarrow> w = x"
  by (auto simp: bit_eq_iff bit_xor_iff)

lemma drop_bit_xor_zero:
  fixes w x :: "'a::len word"
  shows "drop_bit k (w XOR x) = 0 \<longleftrightarrow> drop_bit k w = drop_bit k x"
  by (simp add: drop_bit_xor)

lemma masked_idem [simp]: "masked (masked p) = masked p"
  by (cases p rule: masked.cases) simp_all

lemma pfx_bits_masked [simp]: "pfx_bits (masked p) = pfx_bits p"
  by (cases p rule: masked.cases) simp_all

lemma valid_prefix_masked [simp]: "valid_prefix (masked p) = valid_prefix p"
  by (cases p rule: masked.cases) (simp_all add: valid_prefix_def)

text \<open>Clearing the host bits changes no membership.\<close>

lemma pfx_contains_masked [simp]: "pfx_contains (masked p) a = pfx_contains p a"
proof (cases "(p, a)" rule: pfx_contains.cases)
  case (1 w n x)
  then show ?thesis
    using drop_bit_keep_top [of n w] by (simp add: drop_bit_xor_zero)
next
  case (2 w z n x z')
  then show ?thesis
    using drop_bit_keep_top [of n w] by (simp add: drop_bit_xor_zero)
qed simp_all

text \<open>A single-host block holds its address and no other.\<close>

lemma single_host_contains:
  "addr_zone a = [] \<Longrightarrow> addr_zone b = [] \<Longrightarrow>
   pfx_contains (prefix_from a (bit_len a)) b \<longleftrightarrow> a = b"
  by (cases a; cases b) (auto simp: prefix_from_def)

text \<open>A block of length zero holds every address of its family that names no zone.\<close>

lemma block_zero_contains:
  assumes "pfx_bits p = 0" "addr_zone a = []" "same_family (pfx_addr p) a"
  shows "pfx_contains p a"
proof -
  have "drop_bit 32 (w :: 32 word) = 0" "drop_bit 128 (v :: 128 word) = 0" for w v
    by (rule bit_word_eqI, auto simp: bit_simps dest: bit_imp_le_length)+
  with assms show ?thesis by (cases "(p, a)" rule: pfx_contains.cases) auto
qed

section \<open>Parsing\<close>

definition parse_octet :: "string \<Rightarrow> nat option" where
  "parse_octet s =
     (if s = [] \<or> (length s > 1 \<and> has_prefix s ''0'') then None
      else case digits_val 0 s of
          None \<Rightarrow> None
        | Some n \<Rightarrow> if n \<le> 255 then Some n else None)"

definition parse_ipv4 :: "string \<Rightarrow> 32 word option" where
  "parse_ipv4 s =
     (case map parse_octet (split_char (CHR ''.'') s) of
        [Some a, Some b, Some c, Some d] \<Rightarrow>
          Some (of_nat (a * 2 ^ 24 + b * 2 ^ 16 + c * 2 ^ 8 + d))
      | _ \<Rightarrow> None)"

definition hex_val :: "char \<Rightarrow> nat option" where
  "hex_val c =
     (if is_digit c then Some (of_char c - 48)
      else if CHR ''a'' \<le> c \<and> c \<le> CHR ''f'' then Some (of_char c - 87)
      else if CHR ''A'' \<le> c \<and> c \<le> CHR ''F'' then Some (of_char c - 55)
      else None)"

definition hex_run :: "string \<Rightarrow> nat" where
  "hex_run s = foldl (\<lambda>acc c. acc * 16 + (case hex_val c of None \<Rightarrow> 0 | Some d \<Rightarrow> d)) 0 s"

text \<open>
  The loop of \<open>parseIPv6\<close>, at most eight turns: the groups read so far, where the ellipsis stood
  among them, and what is left to read.
\<close>

fun v6_loop :: "nat \<Rightarrow> nat list \<Rightarrow> nat option \<Rightarrow> string \<Rightarrow> (nat list \<times> nat option \<times> string) option" where
  "v6_loop 0 gs ell s = Some (gs, ell, s)"
| "v6_loop (Suc k) gs ell s =
     (let hex = takeWhile (\<lambda>c. hex_val c \<noteq> None) s;
          rest = drop (length hex) s
      in if hex = [] \<or> length hex > 4 then None
         else if has_prefix rest ''.'' then
           (if (ell = None \<and> length gs \<noteq> 6) \<or> length gs > 6 then None
            else case parse_ipv4 s of
                None \<Rightarrow> None
              | Some w \<Rightarrow> Some (gs @ [unat w div 2 ^ 16, unat w mod 2 ^ 16], ell, []))
         else (let gs' = gs @ [hex_run hex] in
           case rest of
             [] \<Rightarrow> Some (gs', ell, [])
           | c # r \<Rightarrow>
               if c \<noteq> CHR '':'' \<or> r = [] then None
               else if has_prefix r '':'' then
                 (if ell \<noteq> None then None
                  else if drop 1 r = [] then Some (gs', Some (length gs'), [])
                  else v6_loop k gs' (Some (length gs')) (drop 1 r))
               else v6_loop k gs' ell r))"

definition v6_word :: "nat list \<Rightarrow> 128 word" where
  "v6_word gs = of_nat (foldl (\<lambda>acc g. acc * 2 ^ 16 + g) 0 gs)"

definition parse_ipv6 :: "string \<Rightarrow> addr option" where
  "parse_ipv6 input =
     (let (s, zone, bad) = (case cut_char (CHR ''%'') input of
              None \<Rightarrow> (input, [], False)
            | Some (s, z) \<Rightarrow> (s, z, z = []))
      in if bad then None
         else if s = ''::'' then Some (V6 0 zone)
         else
           let lead = has_prefix s ''::'' in
           case v6_loop 8 [] (if lead then Some 0 else None) (if lead then drop 2 s else s) of
             None \<Rightarrow> None
           | Some (gs, ell, rest) \<Rightarrow>
               if rest \<noteq> [] then None
               else if length gs < 8 then
                 (case ell of
                    None \<Rightarrow> None
                  | Some e \<Rightarrow> Some (V6 (v6_word (take e gs @ replicate (8 - length gs) 0 @ drop e gs)) zone))
               else if ell \<noteq> None then None
               else Some (V6 (v6_word gs) zone))"

definition parse_addr :: "string \<Rightarrow> addr option" where
  "parse_addr s =
     (case find (\<lambda>c. c = CHR ''.'' \<or> c = CHR '':'' \<or> c = CHR ''%'') s of
        None \<Rightarrow> None
      | Some c \<Rightarrow>
          if c = CHR ''.'' then map_option V4 (parse_ipv4 s)
          else if c = CHR '':'' then parse_ipv6 s
          else None)"

definition parse_prefix :: "string \<Rightarrow> prefix option" where
  "parse_prefix s =
     (case cut_char (CHR ''/'') (rev s) of
        None \<Rightarrow> None
      | Some (rbits, raddr) \<Rightarrow>
          (let bits = rev rbits in
           case parse_addr (rev raddr) of
             None \<Rightarrow> None
           | Some a \<Rightarrow>
               if addr_zone a \<noteq> [] then None
               else if length bits > 1 \<and> (hd bits < CHR ''1'' \<or> CHR ''9'' < hd bits) then None
               else case parse_int64 bits of
                   None \<Rightarrow> None
                 | Some n \<Rightarrow>
                     if n < 0 \<or> int (bit_len a) < n then None
                     else Some (prefix_from a (nat n))))"

lemma addr_zone_without_zone [simp]: "addr_zone (without_zone a) = []"
  by (cases a) simp_all

lemma bit_len_without_zone [simp]: "bit_len (without_zone a) = bit_len a"
  by (cases a) simp_all

lemma parse_prefix_valid: "parse_prefix s = Some p \<Longrightarrow> valid_prefix p"
  by (auto simp: parse_prefix_def valid_prefix_def prefix_from_def Let_def
      split: option.splits if_splits)

section \<open>Printing\<close>

definition octet :: "nat \<Rightarrow> 32 word \<Rightarrow> nat" where
  "octet k w = (unat w div 2 ^ (8 * k)) mod 256"

definition ipv4_string :: "32 word \<Rightarrow> string" where
  "ipv4_string w = join_with ''.'' (map (\<lambda>k. nat_digits (octet k w)) [3, 2, 1, 0])"

definition hex_digit :: "nat \<Rightarrow> char" where
  "hex_digit d = (if d < 10 then char_of (48 + d) else char_of (87 + d))"

fun hex_digits :: "nat \<Rightarrow> string" where
  "hex_digits n = (if n < 16 then [hex_digit n] else hex_digits (n div 16) @ [hex_digit (n mod 16)])"

declare hex_digits.simps [simp del]

definition v6_groups :: "128 word \<Rightarrow> nat list" where
  "v6_groups w = map (\<lambda>k. (unat w div 2 ^ (16 * k)) mod 2 ^ 16) [7, 6, 5, 4, 3, 2, 1, 0]"

text \<open>The first longest run of at least two zero groups: where it starts and ends.\<close>

definition zero_run :: "nat list \<Rightarrow> (nat \<times> nat) option" where
  "zero_run gs =
     foldl (\<lambda>best i.
         let l = length (takeWhile (\<lambda>g. g = 0) (drop i gs)) in
         if l \<ge> 2 \<and> (case best of None \<Rightarrow> True | Some (a, b) \<Rightarrow> l > b - a) then Some (i, i + l) else best)
       None [0 ..< length gs]"

definition ipv6_string :: "128 word \<Rightarrow> string" where
  "ipv6_string w =
     (let gs = v6_groups w; parts = map hex_digits gs in
      case zero_run gs of
        None \<Rightarrow> join_with '':'' parts
      | Some (a, b) \<Rightarrow> join_with '':'' (take a parts) @ ''::'' @ join_with '':'' (drop b parts))"

fun addr_string :: "addr \<Rightarrow> string" where
  "addr_string (V4 w) = ipv4_string w"
| "addr_string (V6 w z) =
     (if drop_bit 32 w = 0xFFFF then ''::ffff:'' @ ipv4_string (ucast w) else ipv6_string w) @
     (if z = [] then [] else CHR ''%'' # z)"

definition prefix_string :: "prefix \<Rightarrow> string" where
  "prefix_string p = addr_string (pfx_addr p) @ ''/'' @ nat_digits (pfx_bits p)"

section \<open>IPv4 round trip\<close>

lemma nat_digits_leading: "10 \<le> n \<Longrightarrow> \<not> has_prefix (nat_digits n) ''0''"
proof (induction n rule: nat_digits.induct)
  case (1 n)
  have step: "nat_digits n = nat_digits (n div 10) @ [digit_char (n mod 10)]"
    using "1.prems" by (simp add: nat_digits.simps [of n])
  show ?case
  proof (cases "n div 10 < 10")
    case True
    have "digit_char d = CHR ''0'' \<longleftrightarrow> d = 0" if "d < 10" for d
    proof -
      have "digit_char d = CHR ''0'' \<longleftrightarrow> (of_char (digit_char d) :: nat) = of_char (CHR ''0'')"
        by (simp only: of_char_eq_iff)
      with that show ?thesis by simp
    qed
    with True "1.prems" show ?thesis
      by (simp add: step nat_digits.simps [of "n div 10"] has_prefix_def div_eq_0_iff)
  next
    case False
    with 1 have "\<not> has_prefix (nat_digits (n div 10)) ''0''" by simp
    moreover obtain c cs where "nat_digits (n div 10) = c # cs"
      by (meson list.exhaust nat_digits_not_Nil)
    ultimately show ?thesis by (simp add: step)
  qed
qed

lemma nat_digits_short: "n < 10 \<Longrightarrow> length (nat_digits n) = 1"
  by (simp add: nat_digits.simps [of n])

lemma parse_octet_digits [simp]: "n \<le> 255 \<Longrightarrow> parse_octet (nat_digits n) = Some n"
  using nat_digits_leading [of n] nat_digits_short [of n]
  by (cases "n < 10") (auto simp: parse_octet_def digits_val_nat_digits)

lemma octet_bound: "octet k w \<le> 255"
proof -
  have "octet k w < 256" by (simp add: octet_def)
  then show ?thesis by simp
qed

lemma octets_sum:
  "of_nat (octet 3 w * 2 ^ 24 + octet 2 w * 2 ^ 16 + octet 1 w * 2 ^ 8 + octet 0 w) = w"
proof -
  let ?n = "unat w"
  have bound: "?n < 4294967296" using unsigned_less [of w] by simp
  define a b c where "a = ?n div 256" and "b = a div 256" and "c = b div 256"
  have parts: "?n div 65536 = b" "?n div 16777216 = c"
    by (simp_all add: a_def b_def c_def div_mult2_eq [symmetric])
  have "c < 256" using bound by (simp add: parts [symmetric])
  then have "c mod 256 * 16777216 + b mod 256 * 65536 + a mod 256 * 256 + ?n mod 256 = ?n"
    using mult_div_mod_eq [of 256 ?n] mult_div_mod_eq [of 256 a] mult_div_mod_eq [of 256 b]
    by (simp add: a_def [symmetric] b_def [symmetric] c_def [symmetric])
  then have "?n div 16777216 mod 256 * 16777216 + ?n div 65536 mod 256 * 65536
      + ?n div 256 mod 256 * 256 + ?n mod 256 = ?n"
    by (simp add: parts a_def)
  moreover have "?n div 16777216 mod 256 = ?n div 16777216"
    using \<open>c < 256\<close> by (simp add: parts)
  ultimately have "octet 3 w * 2 ^ 24 + octet 2 w * 2 ^ 16 + octet 1 w * 2 ^ 8 + octet 0 w = ?n"
    by (simp add: octet_def)
  moreover have "(of_nat ?n :: 32 word) = w" by simp
  ultimately show ?thesis by (simp only:)
qed

lemma nat_digits_no_char: "\<not> is_digit c \<Longrightarrow> c \<notin> set (nat_digits n)"
  by (blast dest: nat_digits_all_digits)

lemma parse_ipv4_string [simp]: "parse_ipv4 (ipv4_string w) = Some w"
proof -
  let ?parts = "map (\<lambda>k. nat_digits (octet k w)) [3, 2, 1, 0]"
  have "\<not> is_digit (CHR ''.'')" by (simp add: is_digit_def)
  then have "split_char (CHR ''.'') (join_with [CHR ''.''] ?parts) = ?parts"
    by (intro split_join) (simp_all add: nat_digits_no_char)
  then show ?thesis
    using octets_sum [of w] by (simp add: parse_ipv4_def ipv4_string_def octet_bound)
qed

lemma find_after: "\<forall>c \<in> set u. \<not> P c \<Longrightarrow> P c \<Longrightarrow> find P (u @ c # r) = Some c"
  by (induction u) auto

lemma parse_addr_ipv4_string [simp]: "parse_addr (ipv4_string w) = Some (V4 w)"
proof -
  let ?P = "\<lambda>c. c = CHR ''.'' \<or> c = CHR '':'' \<or> c = CHR ''%''"
  have "\<forall>c \<in> set (nat_digits n). \<not> ?P c" for n
    by (auto dest!: nat_digits_all_digits simp: is_digit_def)
  then have "find ?P (nat_digits n @ CHR ''.'' # r) = Some (CHR ''.'')" for n r
    by (rule find_after) simp
  then have "find ?P (ipv4_string w) = Some (CHR ''.'')"
    by (simp add: ipv4_string_def)
  then show ?thesis by (simp add: parse_addr_def)
qed

text \<open>A printed block holds neither a space nor a line break.\<close>

lemma hex_digits_chars: "c \<in> set (hex_digits n) \<Longrightarrow> c \<noteq> CHR '' '' \<and> c \<noteq> CHR 0x0A"
proof (induction n rule: hex_digits.induct)
  case (1 n)
  have digit: "hex_digit d \<noteq> CHR '' '' \<and> hex_digit d \<noteq> CHR 0x0A" if "d < 16" for d
  proof -
    have "hex_digit d = c \<Longrightarrow> (of_char c :: nat) = (if d < 10 then 48 + d else 87 + d)" for c
      using that by (auto simp: hex_digit_def)
    from this [of "CHR '' ''"] this [of "CHR 0x0A"] show ?thesis by (auto split: if_splits)
  qed
  then show ?case
    using 1 by (auto simp: hex_digits.simps [of n] split: if_splits)
qed

lemma nat_digits_chars: "c \<in> set (nat_digits n) \<Longrightarrow> c \<noteq> CHR '' '' \<and> c \<noteq> CHR 0x0A"
  by (auto dest!: nat_digits_all_digits simp: is_digit_def)

lemma ipv4_string_chars: "c \<in> set (ipv4_string w) \<Longrightarrow> c \<noteq> CHR '' '' \<and> c \<noteq> CHR 0x0A"
  using set_join_with [of "''.''" "map (\<lambda>k. nat_digits (octet k w)) [3, 2, 1, 0]"] nat_digits_chars
  by (auto simp: ipv4_string_def)

lemma join_hex_chars:
  "c \<in> set (join_with '':'' ps) \<Longrightarrow> set ps \<subseteq> range hex_digits \<Longrightarrow> c \<noteq> CHR '' '' \<and> c \<noteq> CHR 0x0A"
  using set_join_with [of "'':''" ps] hex_digits_chars by fastforce

lemma ipv6_string_chars: "c \<in> set (ipv6_string w) \<Longrightarrow> c \<noteq> CHR '' '' \<and> c \<noteq> CHR 0x0A"
proof -
  let ?ps = "map hex_digits (v6_groups w)"
  have "set (take a ?ps) \<subseteq> range hex_digits" "set (drop a ?ps) \<subseteq> range hex_digits" for a
    by (auto simp: take_map drop_map)
  moreover have "set ?ps \<subseteq> range hex_digits" by auto
  moreover assume "c \<in> set (ipv6_string w)"
  ultimately show ?thesis
    by (auto simp: ipv6_string_def Let_def split: option.splits dest!: join_hex_chars)
qed

lemma prefix_string_chars:
  assumes "valid_prefix p" "c \<in> set (prefix_string p)"
  shows "c \<noteq> CHR '' '' \<and> c \<noteq> CHR 0x0A"
  using assms
  by (cases p; cases "pfx_addr p")
    (auto simp: prefix_string_def valid_prefix_def split: if_splits
      dest: ipv4_string_chars ipv6_string_chars nat_digits_chars)

lemma prefix_string_not_Nil [simp]: "prefix_string p \<noteq> []"
  by (simp add: prefix_string_def)

end
