(* ===== verification/Go_Errors.thy ===== *)
theory Go_Errors
  imports Prelude
begin

text \<open>
  Go's error values as the program builds and inspects them: the sentinel errors of
  \<open>internal/credential\<close> and \<open>internal/publicip\<close>, the SDK's \<open>APIError\<close> with the status it
  carries, any other failure, a wrapping of one or several errors (\<open>fmt.Errorf\<close> with \<open>%w\<close>,
  \<open>errors.Join\<close>), and \<open>IncompleteError\<close>. \<open>errors.Is\<close> and \<open>errors.As\<close> walk the tree in order.
  The wording of an error goes to the log only and is left out.
\<close>

datatype sentinel =
    ErrSelfRevocation
  | ErrPermissionDenied
  | ErrApplicationInUse
  | ErrNotFound
  | ErrIdentityUnavailable
  | ErrDisabled

datatype err =
    Sentinel sentinel
  | ApiError int
  | Failure string
  | Wrap "err list"
  | IncompleteError int err

fun errors_is :: "err \<Rightarrow> sentinel \<Rightarrow> bool" where
  "errors_is (Sentinel s) t = (s = t)"
| "errors_is (ApiError _) t = False"
| "errors_is (Failure _) t = False"
| "errors_is (Wrap es) t = list_ex (\<lambda>e. errors_is e t) es"
| "errors_is (IncompleteError _ e) t = errors_is e t"

fun as_api :: "err \<Rightarrow> int option" and as_api_first :: "err list \<Rightarrow> int option" where
  "as_api (Sentinel _) = None"
| "as_api (ApiError c) = Some c"
| "as_api (Failure _) = None"
| "as_api (Wrap es) = as_api_first es"
| "as_api (IncompleteError _ e) = as_api e"
| "as_api_first [] = None"
| "as_api_first (e # es) = (case as_api e of Some c \<Rightarrow> Some c | None \<Rightarrow> as_api_first es)"

fun as_incomplete :: "err \<Rightarrow> (int \<times> err) option"
  and as_incomplete_first :: "err list \<Rightarrow> (int \<times> err) option" where
  "as_incomplete (Sentinel _) = None"
| "as_incomplete (ApiError _) = None"
| "as_incomplete (Failure _) = None"
| "as_incomplete (Wrap es) = as_incomplete_first es"
| "as_incomplete (IncompleteError n e) = Some (n, e)"
| "as_incomplete_first [] = None"
| "as_incomplete_first (e # es) =
     (case as_incomplete e of Some x \<Rightarrow> Some x | None \<Rightarrow> as_incomplete_first es)"

text \<open>\<open>ovh.StatusCode\<close>: the status an API error carries, 0 for any other error and for none.\<close>

definition status_code :: "err option \<Rightarrow> int" where
  "status_code e = (case e of None \<Rightarrow> 0 | Some e \<Rightarrow> (case as_api e of None \<Rightarrow> 0 | Some c \<Rightarrow> c))"

text \<open>\<open>errors.Join\<close> over a slice whose entries may be nil.\<close>

definition errors_join :: "err option list \<Rightarrow> err option" where
  "errors_join es =
     (let present = List.map_filter (\<lambda>e. e) es in if present = [] then None else Some (Wrap present))"

lemma map_filter_id_set [simp]: "set (List.map_filter (\<lambda>e. e) es) = {e. Some e \<in> set es}"
  by (induction es) (auto simp: List.map_filter_simps split: option.splits)

lemma map_filter_id_Nil [simp]: "List.map_filter (\<lambda>e. e) es = [] \<longleftrightarrow> (\<forall>e \<in> set es. e = None)"
  by (induction es) (auto simp: List.map_filter_simps split: option.splits)

lemma errors_join_None: "errors_join es = None \<longleftrightarrow> (\<forall>e \<in> set es. e = None)"
  by (simp add: errors_join_def Let_def)

lemma errors_join_Some:
  "errors_join es = Some j \<Longrightarrow> j = Wrap (List.map_filter (\<lambda>e. e) es) \<and> (\<exists>e. Some e \<in> set es)"
  by (auto simp: errors_join_def Let_def split: if_splits)

lemma errors_is_join:
  "errors_join es = Some j \<Longrightarrow> errors_is j t \<longleftrightarrow> (\<exists>e. Some e \<in> set es \<and> errors_is e t)"
  by (auto dest!: errors_join_Some simp: list_ex_iff)

end
