(* ===== verification/Credential.thy ===== *)
theory Credential
  imports Go_Netip Go_Errors
begin

text \<open>
  \<open>internal/credential/credential.go\<close>: the provider-neutral model of a key, and \<open>Permits\<close>, which
  decides what the interface offers. A \<open>Status\<close> is any string the API answers, with four named
  values. The wildcard matcher \<open>matchPath\<close> takes the leftmost occurrence of each literal segment;
  it is shown equal to the declarative reading of a pattern, where a star stands for any run of
  characters.
\<close>

section \<open>Data\<close>

type_synonym status = string

definition StatusExpired :: status where "StatusExpired = ''expired''"
definition StatusPendingValidation :: status where "StatusPendingValidation = ''pendingValidation''"
definition StatusRefused :: status where "StatusRefused = ''refused''"
definition StatusValidated :: status where "StatusValidated = ''validated''"

lemmas status_defs =
  StatusExpired_def StatusPendingValidation_def StatusRefused_def StatusValidated_def

lemma status_distinct [simp]:
  "StatusValidated \<noteq> StatusPendingValidation" "StatusPendingValidation \<noteq> StatusValidated"
  "StatusValidated \<noteq> StatusExpired" "StatusExpired \<noteq> StatusValidated"
  "StatusValidated \<noteq> StatusRefused" "StatusRefused \<noteq> StatusValidated"
  "StatusPendingValidation \<noteq> StatusExpired" "StatusExpired \<noteq> StatusPendingValidation"
  "StatusPendingValidation \<noteq> StatusRefused" "StatusRefused \<noteq> StatusPendingValidation"
  by (simp_all add: status_defs)

record access_rule =
  rule_method :: string
  rule_path :: string

record application =
  app_id :: int
  app_key :: string
  app_name :: string
  app_description :: string
  app_external :: bool
  app_deleted :: bool

definition zero_application :: application where
  "zero_application =
     \<lparr>app_id = 0, app_key = [], app_name = [], app_description = [],
      app_external = False, app_deleted = False\<rparr>"

record credential =
  cred_id :: int
  cred_application :: application
  cred_status :: status
  cred_rules :: "access_rule list"
  cred_allowed_ips :: "prefix list"
  cred_created_at :: time
  cred_expires_at :: time
  cred_last_used_at :: time
  cred_issued_by_support :: bool

definition zero_credential :: credential where
  "zero_credential =
     \<lparr>cred_id = 0, cred_application = zero_application, cred_status = [], cred_rules = [],
      cred_allowed_ips = [], cred_created_at = 0, cred_expires_at = 0, cred_last_used_at = 0,
      cred_issued_by_support = False\<rparr>"

record retirement =
  ret_id :: int
  ret_deleted :: bool

section \<open>Matching a rule path\<close>

text \<open>The loop over the segments between the first and the last; \<open>None\<close> is its early return.\<close>

fun skip_segments :: "string list \<Rightarrow> string \<Rightarrow> string option" where
  "skip_segments [] path = Some path"
| "skip_segments (seg # segs) path =
     (case index_of path seg of
        None \<Rightarrow> None
      | Some found \<Rightarrow> skip_segments segs (drop (found + length seg) path))"

definition match_path :: "string \<Rightarrow> string \<Rightarrow> bool" where
  "match_path pattern path =
     (let segments = split_char (CHR ''*'') pattern in
      if length segments = 1 then pattern = path
      else if \<not> has_prefix path (hd segments) then False
      else (case skip_segments (butlast (tl segments)) (drop (length (hd segments)) path) of
              None \<Rightarrow> False
            | Some rest \<Rightarrow> has_suffix rest (last segments)))"

definition permits :: "credential \<Rightarrow> string \<Rightarrow> string \<Rightarrow> bool" where
  "permits c method path =
     list_ex (\<lambda>rule. equal_fold (rule_method rule) method \<and> match_path (rule_path rule) path)
       (cred_rules c)"

section \<open>The language of a pattern\<close>

text \<open>A star stands for any run of characters, any other character for itself.\<close>

inductive glob :: "string \<Rightarrow> string \<Rightarrow> bool" where
  glob_Nil: "glob [] []"
| glob_char: "c \<noteq> CHR ''*'' \<Longrightarrow> glob p s \<Longrightarrow> glob (c # p) (c # s)"
| glob_star: "glob p s \<Longrightarrow> glob (CHR ''*'' # p) (t @ s)"

inductive_simps glob_Nil_left [simp]: "glob [] s"
inductive_cases glob_ConsE: "glob (c # p) s"

lemma glob_Cons_char: "c \<noteq> CHR ''*'' \<Longrightarrow> glob (c # p) s \<longleftrightarrow> (\<exists>s'. s = c # s' \<and> glob p s')"
  by (auto elim: glob_ConsE intro: glob_char)

lemma glob_Cons_star: "glob (CHR ''*'' # p) s \<longleftrightarrow> (\<exists>t s'. s = t @ s' \<and> glob p s')"
  by (rule iffI, erule glob_ConsE) (auto intro: glob_star)

lemma glob_literal:
  "CHR ''*'' \<notin> set u \<Longrightarrow> glob (u @ p) s \<longleftrightarrow> (\<exists>s'. s = u @ s' \<and> glob p s')"
  by (induction u arbitrary: s) (auto simp: glob_Cons_char)

text \<open>The same language read off the segments: what must follow a star.\<close>

fun after_star :: "string list \<Rightarrow> string \<Rightarrow> bool" where
  "after_star [] s = False"
| "after_star [x] s = has_suffix s x"
| "after_star (x # y # ys) s = (\<exists>u v. s = u @ x @ v \<and> after_star (y # ys) v)"

lemma after_star_prepend: "after_star xs v \<Longrightarrow> after_star xs (u @ v)"
proof (induction xs v arbitrary: u rule: after_star.induct)
  case (3 x y ys s)
  then show ?case by (metis after_star.simps(3) append.assoc)
qed (auto simp: has_suffix_iff)

lemma after_star_glob:
  "xs \<noteq> [] \<Longrightarrow> \<forall>x \<in> set xs. CHR ''*'' \<notin> set x \<Longrightarrow>
   after_star xs s \<longleftrightarrow> glob (CHR ''*'' # join_with ''*'' xs) s"
proof (induction xs s rule: after_star.induct)
  case (2 x s)
  have "glob x v \<longleftrightarrow> v = x" for v using glob_literal [of x "[]" v] 2 by simp
  then show ?case by (auto simp: glob_Cons_star has_suffix_iff)
next
  case (3 x y ys s)
  have "glob (x @ ''*'' @ join_with ''*'' (y # ys)) w \<longleftrightarrow>
      (\<exists>v. w = x @ v \<and> after_star (y # ys) v)" for w
    using 3 glob_literal [of x "''*'' @ join_with ''*'' (y # ys)" w] by auto
  then show ?case by (auto simp: glob_Cons_star)
qed simp

text \<open>Taking each segment at its leftmost place loses nothing.\<close>

lemma skip_segments_complete:
  "after_star (segs @ [z]) path \<longleftrightarrow>
   (case skip_segments segs path of None \<Rightarrow> False | Some rest \<Rightarrow> has_suffix rest z)"
proof (induction segs arbitrary: path)
  case (Cons x xs)
  have step: "after_star (x # xs @ [z]) path \<longleftrightarrow>
      (\<exists>u v. path = u @ x @ v \<and> after_star (xs @ [z]) v)"
    by (cases xs) auto
  show ?case
  proof (cases "index_of path x")
    case None
    then have "\<not> (\<exists>u v. path = u @ x @ v)"
      using index_of_leftmost by fastforce
    then show ?thesis using None by (auto simp: step)
  next
    case (Some n)
    let ?rest = "drop (n + length x) path"
    have split: "path = take n path @ x @ ?rest" by (rule index_of_Some [OF Some])
    have "after_star (xs @ [z]) ?rest" if v: "path = u @ x @ v" "after_star (xs @ [z]) v" for u v
    proof -
      have "n \<le> length u" using index_of_leftmost [OF v(1)] Some by simp
      then have "?rest = drop (n + length x) (u @ x) @ v"
        by (simp add: v(1))
      then show ?thesis
        using after_star_prepend [OF v(2), of "drop (n + length x) (u @ x)"] by (simp only:)
    qed
    with split have "after_star (x # xs @ [z]) path \<longleftrightarrow> after_star (xs @ [z]) ?rest"
      unfolding step by blast
    with Some Cons.IH show ?thesis by simp
  qed
qed simp

lemma match_path_segments:
  assumes "split_char (CHR ''*'') pattern = x # xs @ [z]"
  shows "match_path pattern path \<longleftrightarrow> (\<exists>t. path = x @ t \<and> after_star (xs @ [z]) t)"
  using assms by (auto simp: match_path_def has_prefix_iff skip_segments_complete butlast_append
      split: option.splits)

lemma match_path_glob: "match_path pattern path \<longleftrightarrow> glob pattern path"
proof -
  obtain x ys where segs: "split_char (CHR ''*'') pattern = x # ys"
    by (meson list.exhaust split_char_not_Nil)
  have x: "CHR ''*'' \<notin> set x" and ys: "\<forall>y \<in> set ys. CHR ''*'' \<notin> set y"
    using split_char_pieces [of _ "CHR ''*''" pattern] segs by auto
  have join: "pattern = join_with ''*'' (x # ys)"
    using join_split_char [of "CHR ''*''" pattern] segs by simp
  show ?thesis
  proof (cases ys rule: rev_cases)
    case Nil
    then have "pattern = x" using join by simp
    moreover have "glob x path \<longleftrightarrow> path = x" using glob_literal [OF x, of "[]" path] by simp
    ultimately show ?thesis using segs Nil by (auto simp: match_path_def)
  next
    case (snoc xs z)
    then have "pattern = x @ ''*'' @ join_with ''*'' ys"
      using join by (simp add: join_with_Cons)
    then have "glob pattern path \<longleftrightarrow> (\<exists>t. path = x @ t \<and> glob (CHR ''*'' # join_with ''*'' ys) t)"
      using glob_literal [OF x] by simp
    moreover have "ys \<noteq> []" using snoc by simp
    ultimately show ?thesis
      using after_star_glob [OF _ ys] match_path_segments [of pattern x xs z] segs snoc by simp
  qed
qed

text \<open>Consequences the audit and the offers rest on.\<close>

lemma match_path_literal: "CHR ''*'' \<notin> set pattern \<Longrightarrow> match_path pattern path \<longleftrightarrow> pattern = path"
  using glob_literal [of pattern "[]" path] by (auto simp: match_path_glob)

lemma match_path_star_suffix:
  "CHR ''*'' \<notin> set fixed \<Longrightarrow> match_path (fixed @ ''*'') path \<longleftrightarrow> has_prefix path fixed"
  by (simp add: match_path_glob glob_literal glob_Cons_star has_prefix_iff)

lemma match_path_fixed_prefix:
  assumes "index_of pattern ''*'' = Some star" "match_path pattern path"
  shows "has_prefix path (take star pattern)"
proof -
  from index_of_char [OF assms(1)]
  have "pattern = take star pattern @ CHR ''*'' # drop (Suc star) pattern"
    and "CHR ''*'' \<notin> set (take star pattern)" by auto
  then show ?thesis
    using assms(2) glob_literal [of "take star pattern"] by (metis has_prefix_iff match_path_glob)
qed

lemma permits_mono: "set (cred_rules c) \<subseteq> set (cred_rules d) \<Longrightarrow> permits c m p \<Longrightarrow> permits d m p"
  unfolding permits_def by (rule list_ex_mono_set)

text \<open>
  C12: \<open>Permits\<close> covers exactly the calls the rules describe: some rule names the method, in
  either case, and the path is in the language of its path, where a star stands for any run of
  characters, separators included. The leftmost search of \<open>matchPath\<close> misses nothing.
\<close>

theorem permits_iff_glob:
  "permits c method path \<longleftrightarrow>
   (\<exists>rule \<in> set (cred_rules c). equal_fold (rule_method rule) method \<and> glob (rule_path rule) path)"
  by (auto simp: permits_def list_ex_iff match_path_glob)

end
