(* ===== verification/Ovh_Rules.thy ===== *)
theory Ovh_Rules
  imports Credential
begin

text \<open>
  The second half of \<open>internal/ovh/api.go\<close>: the endpoints a configuration may name, the routes
  of the calls about one credential or one application, \<open>parsePrefix\<close>, the rules the management
  key is issued with, and the \<open>createToken\<close> link that carries a set of rules. The SDK's endpoint
  table is third-party code: it is the argument \<open>sdk_endpoints\<close>.
\<close>

section \<open>Endpoints\<close>

definition supportedEndpoints :: "string list" where
  "supportedEndpoints = [''ovh-eu'', ''ovh-ca'', ''ovh-us'']"

definition endpointURL :: "(string \<Rightarrow> string option) \<Rightarrow> string \<Rightarrow> err + string" where
  "endpointURL sdk_endpoints name =
     (if name \<notin> set supportedEndpoints then Inl (Failure ''unsupported endpoint'')
      else case sdk_endpoints name of
          None \<Rightarrow> Inl (Failure ''endpoint unknown to the SDK'')
        | Some endpoint \<Rightarrow> Inr endpoint)"

text \<open>
  What the link takes of \<open>url.Parse\<close>: the scheme and the host of a base written
  \<open>scheme://host/path\<close>, the form of every entry of the table.
\<close>

definition parse_base :: "string \<Rightarrow> err + (string \<times> string)" where
  "parse_base base =
     (case index_of base ''://'' of
        None \<Rightarrow> Inl (Failure ''url'')
      | Some n \<Rightarrow> Inr (take n base, takeWhile (\<lambda>c. c \<noteq> CHR ''/'') (drop (n + 3) base)))"

section \<open>Routes\<close>

definition ApplicationPath :: "int \<Rightarrow> string" where
  "ApplicationPath i = ''/me/api/application/'' @ format_int i"

definition CredentialPath :: "int \<Rightarrow> string" where
  "CredentialPath i = ''/me/api/credential/'' @ format_int i"

lemma CredentialPath_inject [simp]: "CredentialPath i = CredentialPath j \<longleftrightarrow> i = j"
  by (simp add: CredentialPath_def)

lemma ApplicationPath_inject [simp]: "ApplicationPath i = ApplicationPath j \<longleftrightarrow> i = j"
  by (simp add: ApplicationPath_def)

lemma paths_disjoint [simp]:
  "CredentialPath i \<noteq> ApplicationPath j" "ApplicationPath j \<noteq> CredentialPath i"
  "CredentialPath i \<noteq> ''/auth/logout''" "ApplicationPath j \<noteq> ''/auth/logout''"
  by (simp_all add: CredentialPath_def ApplicationPath_def)

definition parsePrefix :: "string \<Rightarrow> err + prefix" where
  "parsePrefix value =
     (case parse_prefix value of
        Some p \<Rightarrow> Inr p
      | None \<Rightarrow> (case parse_addr value of
            None \<Rightarrow> Inl (Failure ''unreadable address'')
          | Some a \<Rightarrow> Inr (prefix_from a (bit_len a))))"

lemma parsePrefix_valid: "parsePrefix s = Inr p \<Longrightarrow> valid_prefix p"
  by (auto simp: parsePrefix_def valid_prefix_def prefix_from_def parse_prefix_valid [unfolded valid_prefix_def]
      split: option.splits)

section \<open>The rules of the management key\<close>

abbreviation mk_rule :: "string \<Rightarrow> string \<Rightarrow> access_rule" where
  "mk_rule m p \<equiv> \<lparr>rule_method = m, rule_path = p\<rparr>"

definition ManagementRules :: "access_rule list" where
  "ManagementRules =
     [mk_rule ''GET'' ''/me/api/credential'',
      mk_rule ''GET'' ''/me/api/credential/*'',
      mk_rule ''GET'' ''/me/api/application'',
      mk_rule ''GET'' ''/me/api/application/*'',
      mk_rule ''DELETE'' ''/me/api/credential/*'',
      mk_rule ''DELETE'' ''/me/api/application/*'']"

definition AddressRule :: access_rule where
  "AddressRule = mk_rule ''PUT'' ''/me/api/credential/*''"

definition UsableRules :: "access_rule list" where
  "UsableRules = ManagementRules @ [AddressRule]"

section \<open>The link to the page that issues a key\<close>

definition hex_upper :: "nat \<Rightarrow> char" where
  "hex_upper d = (if d < 10 then char_of (48 + d) else char_of (55 + d))"

definition percent :: "char \<Rightarrow> string" where
  "percent b = [CHR ''%'', hex_upper (of_char b div 16), hex_upper (of_char b mod 16)]"

definition ascii_alnum :: "char \<Rightarrow> bool" where
  "ascii_alnum b \<longleftrightarrow>
     CHR ''a'' \<le> b \<and> b \<le> CHR ''z'' \<or> CHR ''A'' \<le> b \<and> b \<le> CHR ''Z'' \<or> is_digit b"

definition escapeRulePath :: "string \<Rightarrow> string" where
  "escapeRulePath path =
     concat (map (\<lambda>b. if ascii_alnum b \<or> b \<in> set ''/*-_.~'' then [b] else percent b) path)"

text \<open>\<open>url.QueryEscape\<close>.\<close>

definition query_escape :: "string \<Rightarrow> string" where
  "query_escape s =
     concat (map (\<lambda>b. if ascii_alnum b \<or> b \<in> set ''-_.~'' then [b]
                       else if b = CHR '' '' then ''+'' else percent b) s)"

fun token_query :: "access_rule list \<Rightarrow> string" where
  "token_query [] = []"
| "token_query [r] = query_escape (rule_method r) @ ''='' @ escapeRulePath (rule_path r)"
| "token_query (r # q # rs) =
     query_escape (rule_method r) @ ''='' @ escapeRulePath (rule_path r) @ ''&'' @ token_query (q # rs)"

definition CreateTokenURL ::
  "(string \<Rightarrow> string option) \<Rightarrow> string \<Rightarrow> access_rule list \<Rightarrow> err + string" where
  "CreateTokenURL sdk_endpoints endpoint rules =
     (case endpointURL sdk_endpoints endpoint of
        Inl e \<Rightarrow> Inl e
      | Inr base \<Rightarrow> (case parse_base base of
            Inl e \<Rightarrow> Inl e
          | Inr (scheme, host) \<Rightarrow>
              Inr (scheme @ ''://'' @ host @ ''/createToken/'' @
                   (if rules = [] then [] else CHR ''?'' # token_query rules))))"

section \<open>Reading the link back\<close>

text \<open>The reader of a query string, as the page at the other end decodes it.\<close>

fun query_unescape :: "string \<Rightarrow> string" where
  "query_unescape (c # h # l # s) =
     (if c = CHR ''%'' then
        (case (hex_val h, hex_val l) of
           (Some a, Some b) \<Rightarrow> char_of (a * 16 + b) # query_unescape s
         | _ \<Rightarrow> c # query_unescape (h # l # s))
      else (if c = CHR ''+'' then CHR '' '' else c) # query_unescape (h # l # s))"
| "query_unescape (c # s) = (if c = CHR ''+'' then CHR '' '' else c) # query_unescape s"
| "query_unescape [] = []"

definition decode_query :: "string \<Rightarrow> (string \<times> string) list" where
  "decode_query q =
     (if q = [] then []
      else map (\<lambda>pair. case cut_char (CHR ''='') pair of
              None \<Rightarrow> (query_unescape pair, [])
            | Some (k, v) \<Rightarrow> (query_unescape k, query_unescape v))
         (split_char (CHR ''&'') q))"

lemma hex_val_upper [simp]: "d < 16 \<Longrightarrow> hex_val (hex_upper d) = Some d"
  by (auto simp: hex_val_def hex_upper_def is_digit_iff less_eq_char_def)

lemma high_nibble [simp]: "(of_char b :: nat) div 16 < 16"
proof -
  have "(of_char b :: nat) < 16 * 16" by simp
  then show ?thesis by (rule less_mult_imp_div_less)
qed

lemma unescape_plain:
  "c \<noteq> CHR ''%'' \<Longrightarrow> c \<noteq> CHR ''+'' \<Longrightarrow> query_unescape (c # s) = c # query_unescape s"
  by (cases s rule: query_unescape.cases) simp_all

lemma unescape_plus: "query_unescape (CHR ''+'' # s) = CHR '' '' # query_unescape s"
  by (cases s rule: query_unescape.cases) simp_all

lemma unescape_percent [simp]: "query_unescape (percent b @ s) = b # query_unescape s"
proof -
  have "(of_char b :: nat) div 16 * 16 + of_char b mod 16 = of_char b" by simp
  then show ?thesis by (simp add: percent_def del: div_mult_mod_eq)
qed

lemma alnum_plain: "ascii_alnum b \<Longrightarrow> b \<noteq> CHR ''%'' \<and> b \<noteq> CHR ''+'' \<and> b \<noteq> CHR ''&'' \<and> b \<noteq> CHR ''=''"
  by (auto simp: ascii_alnum_def is_digit_def less_eq_char_def)

lemma unescape_query_escape [simp]: "query_unescape (query_escape s) = s"
proof (induction s)
  case (Cons b s)
  then show ?case
    using alnum_plain [of b]
    by (auto simp: query_escape_def unescape_plain unescape_plus)
qed (simp add: query_escape_def)

lemma unescape_rule_path [simp]: "query_unescape (escapeRulePath s) = s"
proof (induction s)
  case (Cons b s)
  then show ?case
    using alnum_plain [of b] by (auto simp: escapeRulePath_def unescape_plain)
qed (simp add: escapeRulePath_def)

lemma hex_upper_no_sep: "d < 16 \<Longrightarrow> hex_upper d \<noteq> CHR ''&'' \<and> hex_upper d \<noteq> CHR ''=''"
  using hex_val_upper [of d] by (auto simp: hex_val_def is_digit_def less_eq_char_def)

lemma percent_no_sep: "CHR ''&'' \<notin> set (percent b)" "CHR ''='' \<notin> set (percent b)"
  using hex_upper_no_sep [of "of_char b div 16"] hex_upper_no_sep [of "of_char b mod 16"]
  by (auto simp: percent_def)

lemma escapes_no_sep:
  "CHR ''&'' \<notin> set (query_escape s)" "CHR ''='' \<notin> set (query_escape s)"
  "CHR ''&'' \<notin> set (escapeRulePath s)"
  using percent_no_sep by (auto simp: query_escape_def escapeRulePath_def dest: alnum_plain)

definition rule_pair :: "access_rule \<Rightarrow> string" where
  "rule_pair r = query_escape (rule_method r) @ ''='' @ escapeRulePath (rule_path r)"

lemma token_query_join: "token_query rs = join_with ''&'' (map rule_pair rs)"
  by (induction rs rule: token_query.induct) (simp_all add: rule_pair_def)

lemma rule_pair_no_amp: "CHR ''&'' \<notin> set (rule_pair r)"
  by (simp add: rule_pair_def escapes_no_sep)

lemma cut_rule_pair:
  "cut_char (CHR ''='') (rule_pair r) = Some (query_escape (rule_method r), escapeRulePath (rule_path r))"
  by (simp add: cut_char_Some rule_pair_def escapes_no_sep)

lemma token_query_Nil_iff [simp]: "token_query rs = [] \<longleftrightarrow> rs = []"
  by (cases rs rule: token_query.cases) simp_all

lemma decode_query_token:
  "decode_query (token_query rules) = map (\<lambda>r. (rule_method r, rule_path r)) rules"
proof (cases "rules = []")
  case False
  then have "split_char (CHR ''&'') (token_query rules) = map rule_pair rules"
    by (simp add: token_query_join split_join rule_pair_no_amp)
  with False show ?thesis by (simp add: decode_query_def cut_rule_pair)
qed (simp add: decode_query_def)

text \<open>
  The link to the page that issues a key carries exactly the rules it was built from: reading
  its query string back gives every method and every path, in order, whatever bytes they hold.
\<close>

lemma token_query_roundtrip:
  "decode_query (token_query rules) = map (\<lambda>r. (rule_method r, rule_path r)) rules"
  by (rule decode_query_token)

section \<open>What the management rules cover\<close>

lemma permits_rules:
  "cred_rules c = rs \<Longrightarrow>
   permits c m p \<longleftrightarrow> list_ex (\<lambda>r. equal_fold (rule_method r) m \<and> match_path (rule_path r) p) rs"
  by (simp add: permits_def)

lemma credential_star: "match_path ''/me/api/credential/*'' p \<longleftrightarrow> has_prefix p ''/me/api/credential/''"
  using match_path_star_suffix [of "''/me/api/credential/''" p] by simp

lemma application_star: "match_path ''/me/api/application/*'' p \<longleftrightarrow> has_prefix p ''/me/api/application/''"
  using match_path_star_suffix [of "''/me/api/application/''" p] by simp

lemma CredentialPath_prefix [simp]: "has_prefix (CredentialPath i @ r) ''/me/api/credential/''"
  "has_prefix (CredentialPath i) ''/me/api/credential/''"
  by (simp_all add: CredentialPath_def)

lemma ApplicationPath_prefix [simp]: "has_prefix (ApplicationPath i) ''/me/api/application/''"
  by (simp_all add: ApplicationPath_def)

text \<open>
  C32: The management rules are what the tool needs and not a call more: a key that holds them may
  list and read keys and applications and delete any of them, may not change the addresses of any
  key, and may make no call outside those two branches; the address rule adds that change.
\<close>

theorem management_rules_suffice:
  "(let key = c\<lparr>cred_rules := ManagementRules\<rparr> in
      permits key ''GET'' ''/me/api/credential'' \<and> permits key ''GET'' ''/me/api/application'' \<and>
      permits key ''GET'' (CredentialPath i) \<and> permits key ''GET'' (CredentialPath i @ ''/application'') \<and>
      permits key ''GET'' (ApplicationPath i) \<and>
      permits key ''DELETE'' (CredentialPath i) \<and> permits key ''DELETE'' (ApplicationPath i) \<and>
      \<not> permits key ''PUT'' path \<and>
      (\<not> permits key m path \<or>
         (equal_fold m ''GET'' \<or> equal_fold m ''DELETE'') \<and>
         (path = ''/me/api/credential'' \<or> path = ''/me/api/application'' \<or>
          has_prefix path ''/me/api/credential/'' \<or> has_prefix path ''/me/api/application/''))) \<and>
   permits (c\<lparr>cred_rules := UsableRules\<rparr>) ''PUT'' (CredentialPath i)"
proof -
  have fold: "\<not> equal_fold ''GET'' ''DELETE''" "\<not> equal_fold ''DELETE'' ''GET''"
    "\<not> equal_fold ''GET'' ''PUT''" "\<not> equal_fold ''DELETE'' ''PUT''" "\<not> equal_fold ''PUT'' ''DELETE''"
    by code_simp+
  have exact: "match_path ''/me/api/credential'' p \<longleftrightarrow> ''/me/api/credential'' = p"
    "match_path ''/me/api/application'' p \<longleftrightarrow> ''/me/api/application'' = p" for p
    by (rule match_path_literal, simp)+
  note rules = permits_def ManagementRules_def UsableRules_def AddressRule_def credential_star
    application_star exact fold equal_fold_sym [of _ m]
  show ?thesis
    by (simp add: rules Let_def del: has_prefix_Cons)
qed

theorem management_rules_suffice_witness:
  "permits (zero_credential\<lparr>cred_rules := ManagementRules\<rparr>) ''DELETE'' (CredentialPath 4) \<and>
   (equal_fold ''delete'' ''GET'' \<or> equal_fold ''delete'' ''DELETE'') \<and>
   permits (zero_credential\<lparr>cred_rules := UsableRules\<rparr>) ''PUT'' (CredentialPath 4)"
proof -
  have "permits (zero_credential\<lparr>cred_rules := ManagementRules\<rparr>) ''delete'' ''/me/api/credential/4''"
    by code_simp
  then show ?thesis
    using management_rules_suffice [of zero_credential 4 "''/me/api/credential/4''" "''delete''"]
    by (simp add: Let_def)
qed

end
