(* ===== verification/Provider.thy ===== *)
theory Provider
  imports Ovh_Rules
begin

text \<open>
  The \<open>Provider\<close> interface of \<open>internal/credential/credential.go\<close>: a record of its methods, as
  a Go interface value is, over the state \<open>'s\<close> they read and write. What a method may change
  is named by effects; \<open>only E s t\<close> reads: from \<open>s\<close> to \<open>t\<close>, nothing happened on the account but
  the effects in \<open>E\<close>. The locale \<open>provider_contract\<close> states what the comments of the interface
  promise; the HTTP handlers rest on it alone, and it is interpreted on the provider over the
  API client and on the in-memory account of the demonstration server.
\<close>

section \<open>The interface\<close>

record 's provider =
  pr_list :: "status \<Rightarrow> ('s, credential list option \<times> err option) op"
  pr_get :: "int \<Rightarrow> ('s, err + credential) op"
  pr_revoke :: "int \<Rightarrow> ('s, err option) op"
  pr_revoke_against :: "credential \<Rightarrow> int \<Rightarrow> ('s, err option) op"
  pr_applications :: "('s, application list option \<times> err option) op"
  pr_delete_application :: "int \<Rightarrow> ('s, err option) op"
  pr_delete_application_against :: "credential list \<Rightarrow> int \<Rightarrow> ('s, err option) op"
  pr_deletable_application :: "credential \<Rightarrow> int \<Rightarrow> bool"
  pr_current :: "('s, err + credential) op"
  pr_retire :: "('s, err + retirement) op"
  pr_revocable :: "credential \<Rightarrow> credential \<Rightarrow> bool"
  pr_set_addresses :: "int \<Rightarrow> prefix list \<Rightarrow> ('s, err option) op"
  pr_addresses_editable :: "credential \<Rightarrow> credential \<Rightarrow> bool"

section \<open>Effects\<close>

datatype effect =
    RevokeKey int
  | RewriteAddresses int "prefix list"
  | ExpireKeyInUse
  | DeleteApp int

locale effect_frame =
  fixes only :: "effect set \<Rightarrow> 's \<Rightarrow> 's \<Rightarrow> bool"
  assumes only_refl: "only E s s"
    and only_trans: "only E s t \<Longrightarrow> only E t u \<Longrightarrow> only E s u"
    and only_mono: "only E s t \<Longrightarrow> E \<subseteq> F \<Longrightarrow> only F s t"
begin

lemma only_none: "only {} s t \<Longrightarrow> only E s t"
  by (erule only_mono) simp

lemma only_seq: "only E s t \<Longrightarrow> only F t u \<Longrightarrow> only (E \<union> F) s u"
  by (blast intro: only_trans only_mono)

lemma only_after_read: "only {} s t \<Longrightarrow> only E t u \<Longrightarrow> only E s u"
  by (blast intro: only_trans only_none)

lemma only_for_each:
  assumes "\<And>x s. x \<in> set xs \<Longrightarrow> only E s (snd (f x s))"
  shows "only E s (snd (for_each f xs s))"
  using assms by (rule for_each_rel) (auto intro: only_refl only_trans)

end

section \<open>The contract\<close>

text \<open>
  \<open>identity s\<close> is the identifier of the key the tool authenticates with, as the account would
  answer it in state \<open>s\<close>; \<open>None\<close> when it cannot be read.
\<close>

locale provider_contract = effect_frame only
  for only :: "effect set \<Rightarrow> 's \<Rightarrow> 's \<Rightarrow> bool" +
  fixes pr :: "'s provider"
    and identity :: "'s \<Rightarrow> int option"
  assumes list_frame: "only {} s (snd (pr_list pr st s))"
    and list_nil: "fst (pr_list pr st s) = (None, e) \<Longrightarrow> e \<noteq> None"
    and get_frame: "only {} s (snd (pr_get pr i s))"
    and current_frame: "only {} s (snd (pr_current pr s))"
    and current_identity: "fst (pr_current pr s) = Inr c \<Longrightarrow> identity s = Some (cred_id c)"
    and current_unidentified: "fst (pr_current pr s) = Inl failure \<Longrightarrow> identity s = None"
    and applications_frame: "only {} s (snd (pr_applications pr s))"
    and applications_nil: "fst (pr_applications pr s) = (None, e) \<Longrightarrow> e \<noteq> None"
    and revoke_frame: "only {RevokeKey i} s (snd (pr_revoke pr i s))"
    and revoke_self: "identity s = Some i \<Longrightarrow>
          only {} s (snd (pr_revoke pr i s)) \<and>
          fst (pr_revoke pr i s) = Some (Sentinel ErrSelfRevocation)"
    and revoke_unidentified: "identity s = None \<Longrightarrow>
          only {} s (snd (pr_revoke pr i s)) \<and>
          (\<exists>e. fst (pr_revoke pr i s) = Some e \<and> errors_is e ErrIdentityUnavailable)"
    and revoke_against_self:
          "pr_revoke_against pr cur (cred_id cur) s = (Some (Sentinel ErrSelfRevocation), s)"
    and revoke_against_frame: "only {RevokeKey i} s (snd (pr_revoke_against pr cur i s))"
    and delete_frame: "only {DeleteApp i} s (snd (pr_delete_application pr i s))"
    and delete_against_in_use: "c \<in> set cs \<Longrightarrow> app_id (cred_application c) = i \<Longrightarrow>
          pr_delete_application_against pr cs i s = (Some (Sentinel ErrApplicationInUse), s)"
    and delete_against_frame: "only {DeleteApp i} s (snd (pr_delete_application_against pr cs i s))"
    and retire_frame: "only ({RevokeKey i | i. identity s = Some i} \<union> {ExpireKeyInUse}) s (snd (pr_retire pr s))"
    and retire_unidentified: "identity s = None \<Longrightarrow>
          only {} s (snd (pr_retire pr s)) \<and> (\<exists>e. fst (pr_retire pr s) = Inl e)"
    and set_addresses_frame: "only {RewriteAddresses i ips} s (snd (pr_set_addresses pr i ips s))"
    and revocable_rules:
          "pr_revocable pr cur t \<longleftrightarrow> permits cur ''DELETE'' (CredentialPath (cred_id t))"
    and deletable_rules:
          "pr_deletable_application pr cur i \<longleftrightarrow> permits cur ''DELETE'' (ApplicationPath i)"
    and editable_rules:
          "pr_addresses_editable pr cur t \<longleftrightarrow> permits cur ''PUT'' (CredentialPath (cred_id t))"
begin

lemmas reads = list_frame get_frame current_frame applications_frame

lemma not_revocable_self_reason:
  "permits cur ''DELETE'' (CredentialPath i) \<Longrightarrow> cred_id t = i \<Longrightarrow> pr_revocable pr cur t"
  by (simp add: revocable_rules)

end

end
