(* ===== verification/Go_Netip_Text.thy ===== *)
theory Go_Netip_Text
  imports Go_Netip
begin

text \<open>
  Printed addresses read back: \<open>ParseAddr\<close> on what \<open>Addr.String\<close> prints and \<open>ParsePrefix\<close> on what
  \<open>Prefix.String\<close> prints. The IPv6 text leaves out the first longest run of zero groups, and the
  parser puts back as many as are missing.
\<close>

section \<open>Hexadecimal groups\<close>

lemma hex_val_digit [simp]: "d < 16 \<Longrightarrow> hex_val (hex_digit d) = Some d"
  by (auto simp: hex_val_def hex_digit_def is_digit_iff less_eq_char_def)

lemma hex_digits_not_Nil [simp]: "hex_digits n \<noteq> []"
  by (simp add: hex_digits.simps [of n])

lemma hex_digits_hex: "c \<in> set (hex_digits n) \<Longrightarrow> hex_val c \<noteq> None"
proof (induction n rule: hex_digits.induct)
  case (1 n)
  then show ?case by (auto simp: hex_digits.simps [of n] split: if_splits)
qed

lemma hex_run_snoc: "hex_run (s @ [c]) = hex_run s * 16 + (case hex_val c of None \<Rightarrow> 0 | Some d \<Rightarrow> d)"
  by (simp add: hex_run_def)

lemma hex_run_digits [simp]: "hex_run (hex_digits n) = n"
proof (induction n rule: hex_digits.induct)
  case (1 n)
  have one: "hex_run [c] = (case hex_val c of None \<Rightarrow> 0 | Some d \<Rightarrow> d)" for c by (simp add: hex_run_def)
  from 1 show ?case by (auto simp: hex_digits.simps [of n] hex_run_snoc one)
qed

lemma hex_digits_length: "n < 16 ^ Suc k \<Longrightarrow> length (hex_digits n) \<le> Suc k"
proof (induction k arbitrary: n)
  case (Suc k)
  have "n div 16 < 16 ^ Suc k" using Suc.prems by (simp add: less_mult_imp_div_less mult.commute)
  from Suc.IH [OF this] show ?case by (simp add: hex_digits.simps [of n])
qed (simp add: hex_digits.simps)

lemma separators_not_hex [simp]: "hex_val (CHR '':'') = None" "hex_val (CHR ''.'') = None" "hex_val (CHR ''%'') = None"
  by code_simp+

section \<open>One turn of the parser\<close>

lemma v6_turn:
  assumes "h < 2 ^ 16" "rest = [] \<or> hd rest = CHR '':''"
  shows "v6_loop (Suc k) gs ell (hex_digits h @ rest) =
    (case rest of
       [] \<Rightarrow> Some (gs @ [h], ell, [])
     | c # r \<Rightarrow>
         if r = [] then None
         else if has_prefix r '':'' then
           (if ell \<noteq> None then None
            else if drop 1 r = [] then Some (gs @ [h], Some (length gs + 1), [])
            else v6_loop k (gs @ [h]) (Some (length gs + 1)) (drop 1 r))
         else v6_loop k (gs @ [h]) ell r)"
proof -
  have all: "\<And>c. c \<in> set (hex_digits h) \<Longrightarrow> hex_val c \<noteq> None" by (rule hex_digits_hex)
  have "takeWhile (\<lambda>c. hex_val c \<noteq> None) rest = []"
    using assms(2) by (cases rest) auto
  then have run: "takeWhile (\<lambda>c. hex_val c \<noteq> None) (hex_digits h @ rest) = hex_digits h"
    using all by (subst takeWhile_append2) auto
  have "length (hex_digits h) \<le> 4" using hex_digits_length [of h 3] assms(1) by simp
  moreover have "\<not> has_prefix rest ''.''" using assms(2) by (cases rest) auto
  ultimately show ?thesis
    unfolding v6_loop.simps Let_def run using assms(2) by (cases rest) simp_all
qed

declare v6_loop.simps(2) [simp del]

lemma join_hex_head:
  assumes "hs \<noteq> []"
  shows "\<exists>c r. join_with '':'' (map hex_digits hs) = c # r \<and> hex_val c \<noteq> None"
proof -
  obtain h t where hs: "hs = h # t" using assms by (cases hs) auto
  obtain c r where c: "hex_digits h = c # r" by (meson hex_digits_not_Nil list.exhaust)
  then have "hex_val c \<noteq> None" using hex_digits_hex [of c h] by simp
  with hs c show ?thesis by (cases t) auto
qed

text \<open>Groups to the end of the text.\<close>

lemma v6_loop_groups:
  "hs \<noteq> [] \<Longrightarrow> \<forall>h \<in> set hs. h < 2 ^ 16 \<Longrightarrow>
   v6_loop (length hs + k) gs ell (join_with '':'' (map hex_digits hs)) = Some (gs @ hs, ell, [])"
proof (induction hs arbitrary: gs)
  case (Cons h hs)
  show ?case
  proof (cases "hs = []")
    case True
    then show ?thesis using v6_turn [of h "[]" k gs ell] Cons.prems by simp
  next
    case False
    let ?t = "join_with '':'' (map hex_digits hs)"
    obtain c r where t: "?t = c # r" "hex_val c \<noteq> None" using join_hex_head [OF False] by blast
    then have "?t \<noteq> []" "\<not> has_prefix ?t '':''" by auto
    moreover have "join_with '':'' (map hex_digits (h # hs)) = hex_digits h @ CHR '':'' # ?t"
      using False by (simp add: join_with_Cons)
    ultimately show ?thesis
      using v6_turn [of h "CHR '':'' # ?t" "length hs + k" gs ell] Cons False by simp
  qed
qed simp

text \<open>Groups up to the ellipsis.\<close>

lemma v6_loop_ellipsis:
  "hs \<noteq> [] \<Longrightarrow> \<forall>h \<in> set hs. h < 2 ^ 16 \<Longrightarrow>
   v6_loop (length hs + k) gs None (join_with '':'' (map hex_digits hs) @ ''::'' @ t) =
     (if t = [] then Some (gs @ hs, Some (length (gs @ hs)), [])
      else v6_loop k (gs @ hs) (Some (length (gs @ hs))) t)"
proof (induction hs arbitrary: gs)
  case (Cons h hs)
  show ?case
  proof (cases "hs = []")
    case True
    then show ?thesis using v6_turn [of h "''::'' @ t" k gs None] Cons.prems by simp
  next
    case False
    let ?t = "join_with '':'' (map hex_digits hs) @ ''::'' @ t"
    obtain c r where "join_with '':'' (map hex_digits hs) = c # r" "hex_val c \<noteq> None"
      using join_hex_head [OF False] by blast
    then have "?t \<noteq> []" "\<not> has_prefix ?t '':''" by auto
    moreover have "join_with '':'' (map hex_digits (h # hs)) @ ''::'' @ t = hex_digits h @ CHR '':'' # ?t"
      using False by (simp add: join_with_Cons)
    ultimately show ?thesis
      using v6_turn [of h "CHR '':'' # ?t" "length hs + k" gs None] Cons False by simp
  qed
qed simp

section \<open>The groups of an address\<close>

lemma base_digits:
  fixes B :: nat
  shows "foldl (\<lambda>acc g. acc * B + g) acc (map (\<lambda>k. n div B ^ k mod B) (rev [0 ..< m])) = acc * B ^ m + n mod B ^ m"
proof (induction m arbitrary: acc)
  case (Suc m)
  have "n mod (B ^ m * B) = B ^ m * (n div B ^ m mod B) + n mod B ^ m" by (rule mod_mult2_eq)
  with Suc show ?case by (simp add: algebra_simps)
qed simp

lemma v6_groups_list: "v6_groups w = map (\<lambda>k. unat w div (2 ^ 16) ^ k mod 2 ^ 16) (rev [0 ..< 8])"
  by (simp add: v6_groups_def upt_rec flip: power_mult)

lemma v6_word_groups [simp]: "v6_word (v6_groups w) = w"
proof -
  have "unat w < (2 ^ 16) ^ 8" using unsigned_less [of w] by simp
  then have "foldl (\<lambda>acc g. acc * 2 ^ 16 + g) 0 (v6_groups w) = unat w"
    unfolding v6_groups_list using base_digits [of "2 ^ 16" 0 "unat w" 8] by simp
  then show ?thesis unfolding v6_word_def by (simp only:) simp
qed

lemma v6_groups_length [simp]: "length (v6_groups w) = 8"
  by (simp add: v6_groups_def)

lemma v6_groups_bound: "g \<in> set (v6_groups w) \<Longrightarrow> g < 2 ^ 16"
  by (auto simp: v6_groups_def)

text \<open>The run left out is one of zeros.\<close>

lemma zero_run_zeros:
  assumes "zero_run gs = Some (a, b)"
  shows "a < b \<and> b \<le> length gs \<and> take a gs @ replicate (b - a) 0 @ drop b gs = gs"
proof -
  define good where "good = (\<lambda>best. case best of None \<Rightarrow> True
    | Some (a, b) \<Rightarrow> a < b \<and> b \<le> length gs \<and> (\<forall>j. a \<le> j \<and> j < b \<longrightarrow> gs ! j = (0 :: nat)))"
  let ?l = "\<lambda>i. length (takeWhile (\<lambda>g. g = 0) (drop i gs))"
  have new: "good (Some (i, i + ?l i))" if "?l i \<ge> 2" for i
  proof -
    have len: "?l i \<le> length gs - i" by (metis length_drop length_takeWhile_le)
    have "gs ! j = 0" if j: "i \<le> j" "j < i + ?l i" for j
    proof -
      have "j - i < ?l i" using j by linarith
      then have "takeWhile (\<lambda>g. g = 0) (drop i gs) ! (j - i) = drop i gs ! (j - i)"
        by (rule takeWhile_nth)
      moreover have "takeWhile (\<lambda>g. g = 0) (drop i gs) ! (j - i) = 0"
        using nth_mem [OF \<open>j - i < ?l i\<close>] set_takeWhileD by metis
      moreover have "drop i gs ! (j - i) = gs ! j" using j len by (simp add: nth_drop)
      ultimately show ?thesis by simp
    qed
    with len that show ?thesis by (auto simp: good_def)
  qed
  have "good (foldl (\<lambda>best i.
         let l = ?l i in
         if l \<ge> 2 \<and> (case best of None \<Rightarrow> True | Some (a, b) \<Rightarrow> l > b - a) then Some (i, i + l) else best)
       best is)" if "good best" for best "is"
    using that by (induction "is" arbitrary: best) (auto simp: Let_def new)
  from this [of None "[0 ..< length gs]"] assms have *: "a < b" "b \<le> length gs" "\<forall>j. a \<le> j \<and> j < b \<longrightarrow> gs ! j = 0"
    by (simp_all add: zero_run_def good_def)
  then have "take a gs @ replicate (b - a) 0 @ drop b gs = gs"
    by (intro nth_equalityI) (auto simp: nth_append)
  with * show ?thesis by blast
qed

section \<open>Addresses and blocks read back\<close>

lemma join_hex_chars_only:
  "c \<in> set (join_with '':'' (map hex_digits hs)) \<Longrightarrow> c = CHR '':'' \<or> hex_val c \<noteq> None"
  using set_join_with [of "'':''" "map hex_digits hs"] hex_digits_hex by fastforce

lemma ipv6_string_chars_only: "c \<in> set (ipv6_string w) \<Longrightarrow> c = CHR '':'' \<or> hex_val c \<noteq> None"
  by (auto simp: ipv6_string_def Let_def take_map drop_map split: option.splits dest: join_hex_chars_only)

lemma ipv6_string_colon: "CHR '':'' \<in> set (ipv6_string w)"
proof -
  have "\<exists>g g' gs. v6_groups w = g # g' # gs" by (simp add: v6_groups_def)
  then show ?thesis by (auto simp: ipv6_string_def Let_def split: option.splits)
qed

text \<open>The loop on the groups of an address, the run of zeros left out.\<close>

lemma v6_loop_printed:
  fixes gs :: "nat list"
  assumes gs: "length gs = 8" "\<forall>g \<in> set gs. g < 2 ^ 16" and ab: "a < b" "b \<le> 8"
  shows "0 < a \<Longrightarrow> v6_loop 8 [] None (join_with '':'' (map hex_digits (take a gs)) @ ''::'' @
           join_with '':'' (map hex_digits (drop b gs))) = Some (take a gs @ drop b gs, Some a, [])"
    and "b < 8 \<Longrightarrow> v6_loop 8 [] (Some 0) (join_with '':'' (map hex_digits (drop b gs))) =
           Some (drop b gs, Some 0, [])"
proof -
  have bounds: "\<forall>g \<in> set (take a gs). g < 2 ^ 16" "\<forall>g \<in> set (drop b gs). g < 2 ^ 16"
    using gs(2) by (auto dest: in_set_takeD in_set_dropD)
  have tail: "v6_loop (length (drop b gs) + k) hs ell (join_with '':'' (map hex_digits (drop b gs))) =
      Some (hs @ drop b gs, ell, [])" if "b < 8" for k hs ell
    by (rule v6_loop_groups) (use that gs(1) bounds(2) in auto)
  show "b < 8 \<Longrightarrow> v6_loop 8 [] (Some 0) (join_with '':'' (map hex_digits (drop b gs))) =
      Some (drop b gs, Some 0, [])"
    using tail [of b "[]" "Some 0"] gs(1) by simp
  assume "0 < a"
  then have head: "v6_loop (length (take a gs) + (8 - a)) [] None (join_with '':'' (map hex_digits (take a gs)) @ ''::'' @
      join_with '':'' (map hex_digits (drop b gs))) =
    (if join_with '':'' (map hex_digits (drop b gs)) = [] then Some ([] @ take a gs, Some (length ([] @ take a gs)), [])
     else v6_loop (8 - a) ([] @ take a gs) (Some (length ([] @ take a gs))) (join_with '':'' (map hex_digits (drop b gs))))"
    using ab gs(1) bounds(1) by (intro v6_loop_ellipsis) auto
  show "v6_loop 8 [] None (join_with '':'' (map hex_digits (take a gs)) @ ''::'' @
           join_with '':'' (map hex_digits (drop b gs))) = Some (take a gs @ drop b gs, Some a, [])"
  proof (cases "b = 8")
    case True
    then show ?thesis using head gs(1) ab by (simp add: min_absorb2)
  next
    case False
    then have "join_with '':'' (map hex_digits (drop b gs)) \<noteq> []"
      using join_hex_head [of "drop b gs"] gs(1) ab by auto
    moreover have "8 - a = length (drop b gs) + (b - a)" using gs(1) ab by simp
    ultimately show ?thesis
      using head tail [of "b - a" "take a gs" "Some a"] gs(1) ab False by (simp add: min_absorb2)
  qed
qed

lemma parse_ipv6_zone:
  assumes "CHR ''%'' \<notin> set s"
  shows "parse_ipv6 (s @ (if z = [] then [] else CHR ''%'' # z)) =
    (if s = ''::'' then Some (V6 0 z)
     else case v6_loop 8 [] (if has_prefix s ''::'' then Some 0 else None) (if has_prefix s ''::'' then drop 2 s else s) of
       None \<Rightarrow> None
     | Some (gs, ell, rest) \<Rightarrow>
         if rest \<noteq> [] then None
         else if length gs < 8 then
           (case ell of
              None \<Rightarrow> None
            | Some e \<Rightarrow> Some (V6 (v6_word (take e gs @ replicate (8 - length gs) 0 @ drop e gs)) z))
         else if ell \<noteq> None then None else Some (V6 (v6_word gs) z))"
proof (cases "z = []")
  case True
  have "cut_char (CHR ''%'') s = None"
    using assms by (metis cut_char_Some in_set_conv_decomp option.exhaust surj_pair)
  then show ?thesis unfolding True by (simp add: parse_ipv6_def Let_def)
next
  case False
  have "cut_char (CHR ''%'') (s @ CHR ''%'' # z) = Some (s, z)" using assms by (simp add: cut_char_Some)
  then show ?thesis using False by (simp add: parse_ipv6_def Let_def)
qed

lemma parse_ipv6_string: "parse_ipv6 (ipv6_string w @ (if z = [] then [] else CHR ''%'' # z)) = Some (V6 w z)"
proof -
  let ?gs = "v6_groups w" and ?s = "ipv6_string w" and ?j = "\<lambda>hs. join_with '':'' (map hex_digits hs)"
  have "CHR ''%'' \<notin> set ?s" using ipv6_string_chars_only [of "CHR ''%''" w] by auto
  note parsed = parse_ipv6_zone [OF this]
  have bound: "\<forall>g \<in> set ?gs. g < 2 ^ 16" using v6_groups_bound by blast
  have colons: "\<not> has_prefix (?j hs @ r) ''::''" "?j hs @ r \<noteq> ''::''" if "hs \<noteq> []" for hs r
    using join_hex_head [OF that] by auto
  show ?thesis
  proof (cases "zero_run ?gs")
    case None
    then have s: "?s = ?j ?gs" by (simp add: ipv6_string_def Let_def)
    have "?gs \<noteq> []" by (simp add: v6_groups_def)
    then have "v6_loop 8 [] None ?s = Some (?gs, None, [])"
      using v6_loop_groups [of ?gs 0 "[]" None] bound by (simp add: s)
    then show ?thesis
      using colons [OF \<open>?gs \<noteq> []\<close>, of "[]"] unfolding parsed by (simp add: s)
  next
    case (Some ab)
    then obtain a b where ab: "zero_run ?gs = Some (a, b)" by (cases ab) auto
    have run: "a < b" "b \<le> 8" "take a ?gs @ replicate (b - a) 0 @ drop b ?gs = ?gs"
      using zero_run_zeros [OF ab] by simp_all
    have s: "?s = ?j (take a ?gs) @ ''::'' @ ?j (drop b ?gs)"
      using ab by (simp add: ipv6_string_def Let_def take_map drop_map)
    note loops = v6_loop_printed [OF v6_groups_length bound run(1,2)]
    have filled: "8 - length (take a ?gs @ drop b ?gs) = b - a" using run by simp
    show ?thesis
    proof (cases "a = 0")
      case False
      then have "take a ?gs \<noteq> []" by (simp add: v6_groups_def)
      moreover have "length (take a ?gs @ drop b ?gs) < 8" using run by simp
      moreover have "take a (take a ?gs @ drop b ?gs) @ replicate (b - a) 0 @ drop a (take a ?gs @ drop b ?gs) = ?gs"
        using run by simp
      ultimately show ?thesis
        using loops(1) False colons [of "take a ?gs" "''::'' @ ?j (drop b ?gs)"] filled
        unfolding parsed unfolding s by (simp del: append_assoc take_append drop_append)
    next
      case True
      show ?thesis
      proof (cases "b = 8")
        case True
        have "replicate 8 0 = ?gs" using run(3) unfolding True \<open>a = 0\<close> by simp
        then have "v6_word (replicate 8 0) = w" by (simp only: v6_word_groups)
        moreover have "v6_word (replicate 8 0) = 0" by code_simp
        ultimately have "w = 0" by (simp only:)
        moreover have "?s = ''::''" using True \<open>a = 0\<close> by (simp add: s)
        ultimately show ?thesis unfolding parsed by simp
      next
        case False
        then have "?s \<noteq> ''::''" "drop 2 ?s = ?j (drop b ?gs)" "has_prefix ?s ''::''"
          using join_hex_head [of "drop b ?gs"] run \<open>a = 0\<close> by (auto simp: s)
        moreover have "v6_loop 8 [] (Some 0) (?j (drop b ?gs)) = Some (drop b ?gs, Some 0, [])"
          using loops(2) False run by simp
        moreover have "length (drop b ?gs) < 8" "8 - length (drop b ?gs) = b" using run \<open>a = 0\<close> by simp_all
        moreover have "replicate b 0 @ drop b ?gs = ?gs" using run(3) unfolding \<open>a = 0\<close> by simp
        ultimately show ?thesis unfolding parsed by simp
      qed
    qed
  qed
qed

section \<open>Every address and every block\<close>

lemma find_colon:
  assumes "CHR '':'' \<in> set s" "CHR ''.'' \<notin> set s" "CHR ''%'' \<notin> set s"
  shows "find (\<lambda>c. c = CHR ''.'' \<or> c = CHR '':'' \<or> c = CHR ''%'') (s @ t) = Some (CHR '':'')"
  using assms by (induction s) auto

lemma parse_addr_ipv6_string:
  "parse_addr (ipv6_string w @ (if z = [] then [] else CHR ''%'' # z)) = Some (V6 w z)"
proof -
  have "CHR ''.'' \<notin> set (ipv6_string w)" "CHR ''%'' \<notin> set (ipv6_string w)"
    using ipv6_string_chars_only [of "CHR ''.''" w] ipv6_string_chars_only [of "CHR ''%''" w] by auto
  from find_colon [OF ipv6_string_colon this] show ?thesis
    by (simp only: parse_addr_def option.case parse_ipv6_string) simp
qed

text \<open>An IPv4-mapped address is printed with its last two groups as IPv4.\<close>

lemma nat_digits_length: "n < 10 ^ Suc k \<Longrightarrow> length (nat_digits n) \<le> Suc k"
proof (induction k arbitrary: n)
  case (Suc k)
  have "n div 10 < 10 ^ Suc k" using Suc.prems by (simp add: less_mult_imp_div_less mult.commute)
  from Suc.IH [OF this] show ?case by (simp add: nat_digits.simps [of n])
qed (simp add: nat_digits.simps)

lemma octet_digits_short: "length (nat_digits (octet k w)) \<le> 3"
  using nat_digits_length [of "octet k w" 2] octet_bound [of k w] by simp

lemma digit_hex: "is_digit c \<Longrightarrow> hex_val c \<noteq> None"
  by (simp add: hex_val_def)

lemma ipv4_string_run:
  "takeWhile (\<lambda>c. hex_val c \<noteq> None) (ipv4_string w) = nat_digits (octet 3 w) \<and>
   (\<exists>r. ipv4_string w = nat_digits (octet 3 w) @ CHR ''.'' # r)"
proof -
  have "ipv4_string w = nat_digits (octet 3 w) @ CHR ''.'' # join_with ''.'' (map (\<lambda>k. nat_digits (octet k w)) [2, 1, 0])"
    by (simp add: ipv4_string_def)
  moreover have "\<And>c. c \<in> set (nat_digits (octet 3 w)) \<Longrightarrow> hex_val c \<noteq> None"
    using digit_hex nat_digits_all_digits by blast
  ultimately show ?thesis by (simp add: takeWhile_append2)
qed

lemma v6_word_mapped: "drop_bit 32 w = 0xFFFF \<Longrightarrow>
  v6_word (replicate 5 0 @ [0xFFFF, unat (ucast w :: 32 word) div 2 ^ 16, unat (ucast w :: 32 word) mod 2 ^ 16]) = w"
proof -
  assume mapped: "drop_bit 32 (w :: 128 word) = 0xFFFF"
  let ?n = "unat (ucast w :: 32 word)"
  have low: "?n = unat w mod 2 ^ 32" by (simp add: unsigned_ucast_eq take_bit_eq_mod)
  have "unat (drop_bit 32 w) = unat w div 2 ^ 32" unfolding drop_bit_eq_div by (simp add: unat_div)
  then have high: "unat w div 2 ^ 32 = 65535" using mapped by simp
  have zeros: "foldl (\<lambda>acc g. acc * 2 ^ 16 + g) 0 (replicate k 0 @ gs) =
      foldl (\<lambda>acc g. acc * 2 ^ 16 + g) 0 gs" for k and gs :: "nat list"
    by (induction k) simp_all
  have "foldl (\<lambda>acc g. acc * 2 ^ 16 + g) 0 (replicate 5 0 @ [0xFFFF, ?n div 2 ^ 16, ?n mod 2 ^ 16]) =
      0xFFFF * 2 ^ 32 + (?n div 2 ^ 16 * 2 ^ 16 + ?n mod 2 ^ 16)"
    unfolding zeros by simp
  also have "\<dots> = 0xFFFF * 2 ^ 32 + ?n" by (simp only: div_mult_mod_eq)
  also have "\<dots> = unat w" using high low by (metis div_mult_mod_eq)
  finally show ?thesis unfolding v6_word_def by (simp only:) simp
qed

lemma parse_ipv6_mapped:
  assumes "drop_bit 32 w = 0xFFFF"
  shows "parse_ipv6 ((''::ffff:'' @ ipv4_string (ucast w)) @ (if z = [] then [] else CHR ''%'' # z)) = Some (V6 w z)"
proof -
  let ?v = "ucast w :: 32 word"
  let ?t = "ipv4_string ?v"
  have digit_or_dot: "is_digit c \<or> c = CHR ''.''" if "c \<in> set ?t" for c
    using that set_join_with [of "''.''" "map (\<lambda>k. nat_digits (octet k ?v)) [3, 2, 1, 0]"] nat_digits_all_digits
    by (auto simp: ipv4_string_def)
  then have zone: "CHR ''%'' \<notin> set (''::ffff:'' @ ?t)"
    using digit_or_dot [of "CHR ''%''"] by (auto simp: is_digit_def)
  obtain r where run: "takeWhile (\<lambda>c. hex_val c \<noteq> None) ?t = nat_digits (octet 3 ?v)"
    "?t = nat_digits (octet 3 ?v) @ CHR ''.'' # r"
    using ipv4_string_run [of ?v] by blast
  have "v6_loop (Suc 6) [0xFFFF] (Some 0) ?t = Some ([0xFFFF, unat ?v div 2 ^ 16, unat ?v mod 2 ^ 16], Some 0, [])"
    unfolding v6_loop.simps Let_def run(1) using parse_ipv4_string [of ?v] octet_digits_short [of 3 ?v]
    unfolding run(2) by simp
  moreover have "?t \<noteq> []" by (simp add: run(2))
  then have "\<exists>c s. ?t = c # s \<and> c \<noteq> CHR '':''"
    using digit_or_dot [of "hd ?t"] hd_in_set [of ?t] by (cases ?t) (auto simp: is_digit_def simp del: hd_in_set)
  moreover have "hex_digits 0xFFFF = ''ffff''" by code_simp
  ultimately have "v6_loop 8 [] (Some 0) (''ffff:'' @ ?t) =
      Some ([0xFFFF, unat ?v div 2 ^ 16, unat ?v mod 2 ^ 16], Some 0, [])"
    using v6_turn [where h = "0xFFFF" and rest = "CHR '':'' # ?t" and k = 7 and gs = "[]" and ell = "Some 0"] by auto
  then show ?thesis
    unfolding parse_ipv6_zone [OF zone] using v6_word_mapped [OF assms] by simp
qed

lemma parse_addr_string: "parse_addr (addr_string a) = Some a"
proof (cases a)
  case (V6 w z)
  show ?thesis
  proof (cases "drop_bit 32 w = 0xFFFF")
    case True
    then show ?thesis using parse_ipv6_mapped [OF True, of z] unfolding V6 parse_addr_def by simp
  next
    case False
    then show ?thesis using parse_addr_ipv6_string [of w z] unfolding V6 by simp
  qed
qed simp

lemma nat_digits_hd:
  assumes "length (nat_digits n) > 1"
  shows "CHR ''1'' \<le> hd (nat_digits n) \<and> hd (nat_digits n) \<le> CHR ''9''"
proof -
  obtain c s where c: "nat_digits n = c # s" by (meson list.exhaust nat_digits_not_Nil)
  have "10 \<le> n" using assms nat_digits_short [of n] by (cases "n < 10") auto
  then have "c \<noteq> CHR ''0''" using nat_digits_leading [of n] by (simp add: c)
  then have "(of_char c :: nat) \<noteq> of_char (CHR ''0'')" by (simp only: of_char_eq_iff not_False_eq_True)
  moreover have "is_digit c" using nat_digits_all_digits [of c n] by (simp add: c)
  ultimately show ?thesis by (simp add: c is_digit_def less_eq_char_def)
qed

lemma parse_prefix_string:
  assumes "valid_prefix p"
  shows "parse_prefix (prefix_string p) = Some p"
proof -
  let ?n = "pfx_bits p"
  have n: "?n \<le> bit_len (pfx_addr p)" "addr_zone (pfx_addr p) = []"
    using assms by (simp_all add: valid_prefix_def)
  then have "?n \<le> 128" by (cases "pfx_addr p") simp_all
  have "CHR ''/'' \<notin> set (nat_digits ?n)" by (rule nat_digits_no_char) simp
  then have cut: "cut_char (CHR ''/'') (rev (prefix_string p)) = Some (rev (nat_digits ?n), rev (addr_string (pfx_addr p)))"
    by (simp add: cut_char_Some prefix_string_def)
  have "parse_int64 (nat_digits ?n) = Some (int ?n)"
    using parse_format_int [of "int ?n"] \<open>?n \<le> 128\<close> by (simp add: format_int_def int64_range_def)
  moreover have "\<not> (length (nat_digits ?n) > 1 \<and> (hd (nat_digits ?n) < CHR ''1'' \<or> CHR ''9'' < hd (nat_digits ?n)))"
    using nat_digits_hd [of ?n] by auto
  moreover have "prefix_from (pfx_addr p) ?n = p"
    using n(2) by (cases p; cases "pfx_addr p") (simp_all add: prefix_from_def)
  ultimately show ?thesis
    using n by (simp add: parse_prefix_def cut parse_addr_string Let_def)
qed

section \<open>Mapped addresses and separators\<close>

lemma bit_keep_top: "bit (keep_top n w) k \<longleftrightarrow> bit w k \<and> LENGTH('a) - n \<le> k" for w :: "'a::len word"
  by (auto simp: keep_top_def bit_simps dest: bit_imp_le_length)

lemma masked_4in6:
  assumes "is_4in6 (pfx_addr (masked p))"
  shows "is_4in6 (pfx_addr p)"
proof (cases p rule: masked.cases)
  case (2 w z n)
  then have mapped: "drop_bit 32 (keep_top n w) = 0xFFFF" using assms by simp
  have "bit (0xFFFF :: 128 word) 0" by simp
  then have "bit (keep_top n w) 32" unfolding mapped [symmetric] by (simp add: bit_drop_bit_eq)
  then have "128 - n \<le> 32" by (simp add: bit_keep_top)
  then have "drop_bit 32 (keep_top n w) = drop_bit 32 w"
    by (intro bit_word_eqI) (auto simp: bit_drop_bit_eq bit_keep_top)
  with mapped 2 show ?thesis by simp
qed (use assms in simp)

lemma unmap_not_4in6: "\<not> is_4in6 (without_zone (unmap a))"
  by (cases a) simp_all

text \<open>What the text of an address is made of.\<close>

lemma addr_string_text: "addr_zone a = [] \<Longrightarrow> c \<in> set (addr_string a) \<Longrightarrow> hex_val c \<noteq> None \<or> c \<in> set '':.''"
proof -
  have v4: "hex_val c \<noteq> None \<or> c = CHR ''.''" if "c \<in> set (ipv4_string w)" for w
    using that set_join_with [of "''.''" "map (\<lambda>k. nat_digits (octet k w)) [3, 2, 1, 0]"]
      nat_digits_all_digits digit_hex by (fastforce simp: ipv4_string_def)
  have "hex_val (CHR ''f'') \<noteq> None" by code_simp
  then show "addr_zone a = [] \<Longrightarrow> c \<in> set (addr_string a) \<Longrightarrow> hex_val c \<noteq> None \<or> c \<in> set '':.''"
    using v4 ipv6_string_chars_only [of c] by (cases a) (auto split: if_splits)
qed

end
