(* ===== verification/Ovh_Client.thy ===== *)
theory Ovh_Client
  imports Provider Go_Netip_Text
begin

text \<open>
  \<open>internal/ovh/client.go\<close>, \<open>wire.go\<close> and the calls of \<open>api.go\<close>: the closed set of interactions
  with the OVHcloud API. The SDK and the API behind it are third-party code: \<open>sdk_call\<close> answers
  any request from a state \<open>'w\<close> of the outside world, in any way, and changes that state in any
  way. Beside the world the state keeps the requests sent so far, so that what was asked of the
  API can be stated; no definition reads that record. The context of a call is read through
  \<open>sdk_ctx_ended\<close>, and \<open>sdk_pause\<close> waits, answering whether the context ended first.
\<close>

section \<open>Requests and answers\<close>

datatype req_body = NoBody | AllowedIPs "string list option"

record request =
  req_method :: string
  req_path :: string
  req_body :: req_body
  req_signed :: bool

record api_credential =
  ac_id :: int
  ac_application_id :: int
  ac_status :: string
  ac_rules :: "(string \<times> string) list"
  ac_allowed_ips :: "string list"
  ac_creation :: time
  ac_expiration :: "time option"
  ac_last_use :: "time option"
  ac_ovh_support :: bool

record api_application =
  aa_id :: int
  aa_key :: string
  aa_name :: string
  aa_description :: string
  aa_status :: string

datatype reply =
    ReplyCredential api_credential
  | ReplyApplication api_application
  | ReplyIDs "int list"
  | ReplyRaw string
  | ReplyEmpty

record 'w sdk =
  sdk_call :: "request \<Rightarrow> ('w, err + reply) op"
  sdk_pause :: "duration \<Rightarrow> ('w, bool) op"
  sdk_ctx_ended :: "'w \<Rightarrow> bool"

record 'w net =
  net_world :: 'w
  net_sent :: "request list"

definition send :: "'w sdk \<Rightarrow> request \<Rightarrow> ('w net, err + reply) op" where
  "send sdk r s =
     (let (a, w) = sdk_call sdk r (net_world s)
      in (a, s\<lparr>net_world := w, net_sent := net_sent s @ [r]\<rparr>))"

section \<open>From the wire to the model\<close>

fun parse_allowed :: "string list \<Rightarrow> err + prefix list" where
  "parse_allowed [] = Inr []"
| "parse_allowed (v # vs) =
     (case parsePrefix v of
        Inl e \<Rightarrow> Inl (Wrap [e])
      | Inr p \<Rightarrow> (case parse_allowed vs of Inl e \<Rightarrow> Inl e | Inr ps \<Rightarrow> Inr (p # ps)))"

text \<open>What is written of a list of blocks reads back as that list.\<close>

lemma parse_allowed_strings: "list_all valid_prefix ps \<Longrightarrow> parse_allowed (map prefix_string ps) = Inr ps"
  by (induction ps) (simp_all add: parsePrefix_def parse_prefix_string)

definition optionalTime :: "time option \<Rightarrow> time" where
  "optionalTime t = (case t of None \<Rightarrow> 0 | Some t \<Rightarrow> t)"

definition credential_toDomain :: "api_credential \<Rightarrow> err + credential" where
  "credential_toDomain c =
     (case parse_allowed (ac_allowed_ips c) of
        Inl e \<Rightarrow> Inl e
      | Inr allowed \<Rightarrow> Inr
          \<lparr>cred_id = ac_id c,
           cred_application = zero_application\<lparr>app_id := ac_application_id c\<rparr>,
           cred_status = ac_status c,
           cred_rules = map (\<lambda>(m, p). mk_rule m p) (ac_rules c),
           cred_allowed_ips = allowed,
           cred_created_at = ac_creation c,
           cred_expires_at = optionalTime (ac_expiration c),
           cred_last_used_at = optionalTime (ac_last_use c),
           cred_issued_by_support = ac_ovh_support c\<rparr>)"

definition application_toDomain :: "api_application \<Rightarrow> application" where
  "application_toDomain a =
     \<lparr>app_id = aa_id a, app_key = aa_key a, app_name = aa_name a,
      app_description = aa_description a, app_external = False, app_deleted = False\<rparr>"

section \<open>Sending a call, and sending it again\<close>

definition rateLimitAttempts :: nat where "rateLimitAttempts = 4"

definition retryDelay :: duration where "retryDelay = 500 * 1000000"

definition failed_with :: "err + 'a \<Rightarrow> int" where
  "failed_with r = (case r of Inl e \<Rightarrow> status_code (Some e) | Inr _ \<Rightarrow> 0)"

fun paced_loop :: "nat \<Rightarrow> ('s, err + 'a) op \<Rightarrow> err + 'a \<Rightarrow> ('s, err + 'a) op" where
  "paced_loop 0 call r s = (r, s)"
| "paced_loop (Suc k) call r s =
     (if failed_with r = 429 then (let (r', s') = call s in paced_loop k call r' s') else (r, s))"

definition paced :: "('s, err + 'a) op \<Rightarrow> ('s, err + 'a) op" where
  "paced call s = (let (r, s') = call s in paced_loop (rateLimitAttempts - 1) call r s')"

text \<open>A signed read: tried once more when it failed before any answer, unless the context ended.\<close>

definition api_get :: "'w sdk \<Rightarrow> string \<Rightarrow> (reply \<Rightarrow> err + 'a) \<Rightarrow> ('w net, err + 'a) op" where
  "api_get sdk path into s =
     (let read = (\<lambda>s. let (a, s') = send sdk \<lparr>req_method = ''GET'', req_path = path,
                                               req_body = NoBody, req_signed = True\<rparr> s
                      in (case a of Inl e \<Rightarrow> Inl e | Inr v \<Rightarrow> into v, s'));
          (r, s1) = paced read s
      in case r of
           Inr v \<Rightarrow> (Inr v, s1)
         | Inl e \<Rightarrow>
             if status_code (Some e) \<noteq> 0 \<or> sdk_ctx_ended sdk (net_world s1) then (Inl e, s1)
             else (let (ended, w) = sdk_pause sdk retryDelay (net_world s1);
                       s2 = s1\<lparr>net_world := w\<rparr>
                   in if ended then (Inl e, s2) else paced read s2))"

text \<open>A signed write, whose answer carries nothing.\<close>

definition api_write :: "'w sdk \<Rightarrow> string \<Rightarrow> string \<Rightarrow> req_body \<Rightarrow> ('w net, err option) op" where
  "api_write sdk method path body s =
     (let (r, s') = paced (send sdk \<lparr>req_method = method, req_path = path,
                                     req_body = body, req_signed = True\<rparr>) s
      in (case r of Inl e \<Rightarrow> Some e | Inr _ \<Rightarrow> None, s'))"

section \<open>The calls\<close>

text \<open>Decoding an answer into the wrong shape is an error of the JSON decoder.\<close>

definition unexpected :: "err + 'a" where "unexpected = Inl (Failure ''json'')"

definition into_credential :: "reply \<Rightarrow> err + api_credential" where
  "into_credential v = (case v of ReplyCredential c \<Rightarrow> Inr c | _ \<Rightarrow> unexpected)"

definition into_application :: "reply \<Rightarrow> err + api_application" where
  "into_application v = (case v of ReplyApplication a \<Rightarrow> Inr a | _ \<Rightarrow> unexpected)"

definition into_ids :: "reply \<Rightarrow> err + int list" where
  "into_ids v = (case v of ReplyIDs ids \<Rightarrow> Inr ids | _ \<Rightarrow> unexpected)"

definition into_raw :: "reply \<Rightarrow> err + string" where
  "into_raw v = (case v of ReplyRaw raw \<Rightarrow> Inr raw | _ \<Rightarrow> unexpected)"

definition api_CurrentCredential :: "'w sdk \<Rightarrow> ('w net, err + credential) op" where
  "api_CurrentCredential sdk s =
     (let (r, s') = api_get sdk ''/auth/currentCredential'' into_credential s
      in (case r of Inl e \<Rightarrow> Inl e | Inr c \<Rightarrow> credential_toDomain c, s'))"

definition credential_listing_path :: "status \<Rightarrow> string" where
  "credential_listing_path status =
     ''/me/api/credential'' @ (if status = [] then [] else ''?status='' @ query_escape status)"

definition api_ListCredentialIDs :: "'w sdk \<Rightarrow> status \<Rightarrow> ('w net, err + int list) op" where
  "api_ListCredentialIDs sdk status s = api_get sdk (credential_listing_path status) into_ids s"

definition api_Credential :: "'w sdk \<Rightarrow> int \<Rightarrow> ('w net, err + credential) op" where
  "api_Credential sdk i s =
     (let (r, s') = api_get sdk (CredentialPath i) into_credential s
      in (case r of Inl e \<Rightarrow> Inl e | Inr c \<Rightarrow> credential_toDomain c, s'))"

definition api_CredentialApplication :: "'w sdk \<Rightarrow> int \<Rightarrow> ('w net, err + application) op" where
  "api_CredentialApplication sdk i s =
     (let (r, s') = api_get sdk (CredentialPath i @ ''/application'') into_application s
      in (case r of Inl e \<Rightarrow> Inl e | Inr a \<Rightarrow> Inr (application_toDomain a), s'))"

definition api_DeleteCredential :: "'w sdk \<Rightarrow> int \<Rightarrow> ('w net, err option) op" where
  "api_DeleteCredential sdk i s = api_write sdk ''DELETE'' (CredentialPath i) NoBody s"

definition allowed_body :: "prefix list \<Rightarrow> req_body" where
  "allowed_body ips = AllowedIPs (if ips = [] then None else Some (map prefix_string ips))"

definition api_SetAllowedIPs :: "'w sdk \<Rightarrow> int \<Rightarrow> prefix list \<Rightarrow> ('w net, err option) op" where
  "api_SetAllowedIPs sdk i ips s = api_write sdk ''PUT'' (CredentialPath i) (allowed_body ips) s"

definition api_Logout :: "'w sdk \<Rightarrow> ('w net, err option) op" where
  "api_Logout sdk s = api_write sdk ''POST'' ''/auth/logout'' NoBody s"

definition api_ListApplicationIDs :: "'w sdk \<Rightarrow> ('w net, err + int list) op" where
  "api_ListApplicationIDs sdk s = api_get sdk ''/me/api/application'' into_ids s"

definition api_Application :: "'w sdk \<Rightarrow> int \<Rightarrow> ('w net, err + application) op" where
  "api_Application sdk i s =
     (let (r, s') = api_get sdk (ApplicationPath i) into_application s
      in (case r of Inl e \<Rightarrow> Inl e | Inr a \<Rightarrow> Inr (application_toDomain a), s'))"

definition api_DeleteApplication :: "'w sdk \<Rightarrow> int \<Rightarrow> ('w net, err option) op" where
  "api_DeleteApplication sdk i s = api_write sdk ''DELETE'' (ApplicationPath i) NoBody s"

text \<open>The catalogue documents are read without a signature, once.\<close>

definition api_raw :: "'w sdk \<Rightarrow> string \<Rightarrow> ('w net, err + string) op" where
  "api_raw sdk path s =
     (let (a, s') = send sdk \<lparr>req_method = ''GET'', req_path = path,
                              req_body = NoBody, req_signed = False\<rparr> s
      in (case a of Inl e \<Rightarrow> Inl e | Inr v \<Rightarrow> into_raw v, s'))"

definition api_Index :: "'w sdk \<Rightarrow> ('w net, err + string) op" where
  "api_Index sdk s = api_raw sdk ''/'' s"

definition api_Schema :: "'w sdk \<Rightarrow> string \<Rightarrow> ('w net, err + string) op" where
  "api_Schema sdk path s = api_raw sdk path s"

section \<open>The interface the provider works with\<close>

record 's client =
  cl_current :: "('s, err + credential) op"
  cl_list_credential_ids :: "status \<Rightarrow> ('s, err + int list) op"
  cl_credential :: "int \<Rightarrow> ('s, err + credential) op"
  cl_credential_application :: "int \<Rightarrow> ('s, err + application) op"
  cl_delete_credential :: "int \<Rightarrow> ('s, err option) op"
  cl_set_allowed_ips :: "int \<Rightarrow> prefix list \<Rightarrow> ('s, err option) op"
  cl_logout :: "('s, err option) op"
  cl_list_application_ids :: "('s, err + int list) op"
  cl_application :: "int \<Rightarrow> ('s, err + application) op"
  cl_delete_application :: "int \<Rightarrow> ('s, err option) op"
  cl_index :: "('s, err + string) op"
  cl_schema :: "string \<Rightarrow> ('s, err + string) op"

definition api_client :: "'w sdk \<Rightarrow> 'w net client" where
  "api_client sdk =
     \<lparr>cl_current = api_CurrentCredential sdk,
      cl_list_credential_ids = api_ListCredentialIDs sdk,
      cl_credential = api_Credential sdk,
      cl_credential_application = api_CredentialApplication sdk,
      cl_delete_credential = api_DeleteCredential sdk,
      cl_set_allowed_ips = api_SetAllowedIPs sdk,
      cl_logout = api_Logout sdk,
      cl_list_application_ids = api_ListApplicationIDs sdk,
      cl_application = api_Application sdk,
      cl_delete_application = api_DeleteApplication sdk,
      cl_index = api_Index sdk,
      cl_schema = api_Schema sdk\<rparr>"

text \<open>
  The contract of \<open>Client\<close>: every read leaves the account alone, and each of the four writes does
  what its name says and nothing else.
\<close>

locale client_contract = effect_frame only
  for only :: "effect set \<Rightarrow> 's \<Rightarrow> 's \<Rightarrow> bool" +
  fixes cl :: "'s client"
  assumes cl_current_frame: "only {} s (snd (cl_current cl s))"
    and cl_list_credential_ids_frame: "only {} s (snd (cl_list_credential_ids cl st s))"
    and cl_credential_frame: "only {} s (snd (cl_credential cl i s))"
    and cl_credential_application_frame: "only {} s (snd (cl_credential_application cl i s))"
    and cl_list_application_ids_frame: "only {} s (snd (cl_list_application_ids cl s))"
    and cl_application_frame: "only {} s (snd (cl_application cl i s))"
    and cl_index_frame: "only {} s (snd (cl_index cl s))"
    and cl_schema_frame: "only {} s (snd (cl_schema cl path s))"
    and cl_delete_credential_frame: "only {RevokeKey i} s (snd (cl_delete_credential cl i s))"
    and cl_set_allowed_ips_frame: "only {RewriteAddresses i ips} s (snd (cl_set_allowed_ips cl i ips s))"
    and cl_logout_frame: "only {ExpireKeyInUse} s (snd (cl_logout cl s))"
    and cl_delete_application_frame: "only {DeleteApp i} s (snd (cl_delete_application cl i s))"
begin

lemmas cl_reads = cl_current_frame cl_list_credential_ids_frame cl_credential_frame
  cl_credential_application_frame cl_list_application_ids_frame cl_application_frame

end

section \<open>What was asked of the API\<close>

fun realises :: "request \<Rightarrow> effect \<Rightarrow> bool" where
  "realises r (RevokeKey i) = (req_method r = ''DELETE'' \<and> req_path r = CredentialPath i \<and> req_body r = NoBody)"
| "realises r (RewriteAddresses i ips) =
     (req_method r = ''PUT'' \<and> req_path r = CredentialPath i \<and> req_body r = allowed_body ips)"
| "realises r ExpireKeyInUse = (req_method r = ''POST'' \<and> req_path r = ''/auth/logout'' \<and> req_body r = NoBody)"
| "realises r (DeleteApp i) = (req_method r = ''DELETE'' \<and> req_path r = ApplicationPath i \<and> req_body r = NoBody)"

definition is_read :: "request \<Rightarrow> bool" where
  "is_read r \<longleftrightarrow> req_method r = ''GET'' \<and> req_body r = NoBody"

definition sent_only :: "effect set \<Rightarrow> 'w net \<Rightarrow> 'w net \<Rightarrow> bool" where
  "sent_only E s t \<longleftrightarrow>
     (\<exists>l. net_sent t = net_sent s @ l \<and> (\<forall>r \<in> set l. is_read r \<or> (\<exists>e \<in> E. realises r e)))"

lemma sent_only_refl: "sent_only E s s"
  by (auto simp: sent_only_def)

lemma sent_only_trans: "sent_only E s t \<Longrightarrow> sent_only E t u \<Longrightarrow> sent_only E s u"
  unfolding sent_only_def by (metis Un_iff append.assoc set_append)

lemma sent_only_mono: "sent_only E s t \<Longrightarrow> E \<subseteq> F \<Longrightarrow> sent_only F s t"
  unfolding sent_only_def by blast

lemma sent_only_world [simp]: "sent_only E s (t\<lparr>net_world := w\<rparr>) = sent_only E s t"
  by (simp add: sent_only_def)

lemma sent_only_send:
  "is_read r \<or> (\<exists>e \<in> E. realises r e) \<Longrightarrow> sent_only E s (snd (send sdk r s))"
  by (auto simp: sent_only_def send_def split_beta Let_def)

text \<open>Whatever one attempt may send, a paced call sends nothing else.\<close>

lemma paced_loop_only:
  assumes "\<And>s. sent_only E s (snd (call s))"
  shows "sent_only E s (snd (paced_loop k call r s))"
  using assms
proof (induction k arbitrary: r s)
  case 0
  then show ?case by (simp add: sent_only_refl)
next
  case (Suc k)
  then show ?case
    by (auto simp: Let_def split_beta sent_only_refl intro: sent_only_trans)
qed

lemma paced_only:
  assumes "\<And>s. sent_only E s (snd (call s))"
  shows "sent_only E s (snd (paced call s))"
  using sent_only_trans [OF assms paced_loop_only [OF assms]]
  by (simp add: paced_def Let_def split_beta)

lemma api_get_only: "sent_only {} s (snd (api_get sdk path into s))"
proof -
  let ?read = "\<lambda>s. let (a, s') = send sdk \<lparr>req_method = ''GET'', req_path = path,
                     req_body = NoBody, req_signed = True\<rparr> s
                   in (case a of Inl e \<Rightarrow> Inl e | Inr v \<Rightarrow> into v, s')"
  have "sent_only {} s (snd (?read s))" for s
    by (simp add: Let_def split_beta) (rule sent_only_send, simp add: is_read_def)
  then have read: "sent_only {} s (snd (paced ?read s))" for s by (rule paced_only)
  obtain r s1 where first: "paced ?read s = (r, s1)" by fastforce
  then have s1: "sent_only {} s s1" using read [of s] by simp
  moreover have "sent_only {} s (snd (paced ?read (s1\<lparr>net_world := w\<rparr>)))" for w
    using sent_only_trans [OF _ read] s1 by simp
  ultimately show ?thesis
    by (simp add: api_get_def Let_def split_beta first [simplified Let_def split_beta] split: sum.split)
qed

lemma api_write_only:
  "realises \<lparr>req_method = m, req_path = path, req_body = body, req_signed = True\<rparr> e \<Longrightarrow>
   sent_only {e} s (snd (api_write sdk m path body s))"
  by (simp add: api_write_def Let_def split_beta) (rule paced_only, rule sent_only_send, simp)

lemma api_raw_only: "sent_only {} s (snd (api_raw sdk path s))"
  by (simp add: api_raw_def Let_def split_beta) (rule sent_only_send, simp add: is_read_def)

interpretation sent: effect_frame sent_only
  by unfold_locales (rule sent_only_refl, erule (1) sent_only_trans, erule (1) sent_only_mono)

interpretation api: client_contract sent_only "api_client sdk" for sdk
  by unfold_locales
    (simp_all add: api_client_def api_CurrentCredential_def api_ListCredentialIDs_def
      api_Credential_def api_CredentialApplication_def api_ListApplicationIDs_def
      api_Application_def api_Index_def api_Schema_def api_DeleteCredential_def
      api_SetAllowedIPs_def api_Logout_def api_DeleteApplication_def Let_def split_beta
      api_get_only api_raw_only api_write_only)

section \<open>How often a call is sent\<close>

lemma paced_loop_sends:
  assumes "\<And>s. net_sent (snd (call s)) = net_sent s @ [q]"
  shows "\<exists>n \<le> k. net_sent (snd (paced_loop k call r s)) = net_sent s @ replicate n q"
proof (induction k arbitrary: r s)
  case (Suc k)
  obtain n where "n \<le> k" "net_sent (snd (paced_loop k call (fst (call s)) (snd (call s)))) =
      net_sent (snd (call s)) @ replicate n q"
    using Suc.IH by blast
  then have "Suc n \<le> Suc k" "net_sent (snd (paced_loop k call (fst (call s)) (snd (call s)))) =
      net_sent s @ replicate (Suc n) q"
    using assms by simp_all
  then show ?case by (cases "failed_with r = 429") (auto simp: Let_def split_beta intro: exI [of _ 0])
qed simp

lemma paced_sends:
  assumes "\<And>s. net_sent (snd (call s)) = net_sent s @ [q]"
  shows "\<exists>n. 1 \<le> n \<and> n \<le> 4 \<and> net_sent (snd (paced call s)) = net_sent s @ replicate n q"
proof -
  obtain n where "n \<le> 3" "net_sent (snd (paced_loop 3 call (fst (call s)) (snd (call s)))) =
      net_sent (snd (call s)) @ replicate n q"
    using paced_loop_sends [OF assms] by blast
  then have "1 \<le> Suc n \<and> Suc n \<le> 4 \<and> net_sent (snd (paced call s)) = net_sent s @ replicate (Suc n) q"
    using assms by (simp add: paced_def rateLimitAttempts_def Let_def split_beta)
  then show ?thesis by blast
qed

lemma send_sent [simp]: "net_sent (snd (send sdk q s)) = net_sent s @ [q]"
  by (simp add: send_def Let_def split_beta)

lemma paced_once: "failed_with (fst (call s)) \<noteq> 429 \<Longrightarrow> paced call s = call s"
  by (simp add: paced_def rateLimitAttempts_def Let_def split_beta numeral_3_eq_3)

definition signed_get :: "string \<Rightarrow> request" where
  "signed_get path = \<lparr>req_method = ''GET'', req_path = path, req_body = NoBody, req_signed = True\<rparr>"

lemma api_get_sends:
  "\<exists>n. 1 \<le> n \<and> n \<le> 8 \<and> net_sent (snd (api_get sdk path into s)) = net_sent s @ replicate n (signed_get path)"
proof -
  let ?read = "\<lambda>s. let (a, s') = send sdk (signed_get path) s
                  in (case a of Inl e \<Rightarrow> Inl e | Inr v \<Rightarrow> into v, s')"
  have one: "net_sent (snd (?read s)) = net_sent s @ [signed_get path]" for s
    by (simp add: Let_def split_beta)
  obtain n where n: "1 \<le> n" "n \<le> 4" "net_sent (snd (paced ?read s)) = net_sent s @ replicate n (signed_get path)"
    using paced_sends [OF one] by blast
  let ?s2 = "(snd (paced ?read s))\<lparr>net_world := snd (sdk_pause sdk retryDelay (net_world (snd (paced ?read s))))\<rparr>"
  obtain m where m: "1 \<le> m" "m \<le> 4"
    "net_sent (snd (paced ?read ?s2)) = net_sent ?s2 @ replicate m (signed_get path)"
    using paced_sends [OF one] by blast
  then have nm: "net_sent (snd (paced ?read ?s2)) = net_sent s @ replicate (n + m) (signed_get path)"
    using n(3) by (simp add: replicate_add)
  have "api_get sdk path into s =
      (let (r, s1) = paced ?read s
       in case r of
            Inr v \<Rightarrow> (Inr v, s1)
          | Inl e \<Rightarrow>
              if status_code (Some e) \<noteq> 0 \<or> sdk_ctx_ended sdk (net_world s1) then (Inl e, s1)
              else (let (ended, w) = sdk_pause sdk retryDelay (net_world s1); s2 = s1\<lparr>net_world := w\<rparr>
                    in if ended then (Inl e, s2) else paced ?read s2))"
    by (simp only: api_get_def signed_get_def Let_def)
  then have "snd (api_get sdk path into s) \<in> {snd (paced ?read s), ?s2, snd (paced ?read ?s2)}"
    by (simp add: split_beta Let_def split: sum.split)
  then show ?thesis
  proof (elim insertE)
    assume "snd (api_get sdk path into s) = snd (paced ?read ?s2)"
    with nm n(1,2) m(1,2) show ?thesis by (intro exI [of _ "n + m"]) simp
  qed (use n in \<open>auto intro!: exI [of _ n]\<close>)
qed


end
