(* ===== verification/Public_Ip.thy ===== *)
theory Public_Ip
  imports Ovh_Client
begin

text \<open>
  \<open>internal/publicip/publicip.go\<close>: the address this process is seen from. The HTTP client that
  reaches the resolver is library code over the network, and its answer is an argument: the
  status, the bytes of the body, and whether reading it broke off after them. The timeout is
  part of that answer, an unreachable service. The locale \<open>address_resolver\<close> is what the
  interface promises: a lookup is no call to the account, and \<open>ErrDisabled\<close> is what a
  disabled instance answers and no other. Both resolvers of the program are interpretations.
\<close>

section \<open>Resolvers\<close>

record 's resolver =
  rs_address :: "('s, err + addr) op"
  rs_enabled :: bool

definition Disabled :: "'s resolver" where
  "Disabled = \<lparr>rs_address = (\<lambda>s. (Inl (Sentinel ErrDisabled), s)), rs_enabled = False\<rparr>"

datatype lookup =
    Unreachable
  | LookedUp int string bool

definition limit :: nat where "limit = 64"

definition read_lookup :: "lookup \<Rightarrow> err + addr" where
  "read_lookup l =
     (case l of
        Unreachable \<Rightarrow> Inl (Wrap [Failure ''reach the address resolver''])
      | LookedUp status body broken \<Rightarrow>
          if status \<noteq> 200 then Inl (Failure ''the address resolver answered'')
          else if broken \<and> length body < limit then Inl (Wrap [Failure ''read the address resolver''])
          else (case parse_addr (trim_space (take limit body)) of
                  None \<Rightarrow> Inl (Failure ''not an address'')
                | Some a \<Rightarrow> Inr a))"

text \<open>The call goes through the world and not through the API client.\<close>

definition Service_Address :: "('w, lookup) op \<Rightarrow> ('w net, err + addr) op" where
  "Service_Address ask s =
     (let (l, w) = ask (net_world s) in (read_lookup l, s\<lparr>net_world := w\<rparr>))"

definition Service :: "('w, lookup) op \<Rightarrow> 'w net resolver" where
  "Service ask = \<lparr>rs_address = Service_Address ask, rs_enabled = True\<rparr>"

section \<open>The contract\<close>

locale address_resolver = effect_frame only
  for only :: "effect set \<Rightarrow> 's \<Rightarrow> 's \<Rightarrow> bool" +
  fixes rs :: "'s resolver"
  assumes lookup_frame: "only {} s (snd (rs_address rs s))"
    and disabled_iff:
      "(\<exists>e. fst (rs_address rs s) = Inl e \<and> errors_is e ErrDisabled) \<longleftrightarrow> \<not> rs_enabled rs"
begin

lemma enabled_not_disabled:
  "rs_enabled rs \<Longrightarrow> fst (rs_address rs s) = Inl e \<Longrightarrow> \<not> errors_is e ErrDisabled"
  using disabled_iff [of s] by blast

lemma disabled_refuses:
  "\<not> rs_enabled rs \<Longrightarrow> \<exists>e. fst (rs_address rs s) = Inl e \<and> errors_is e ErrDisabled"
  using disabled_iff [of s] by blast

end

lemma read_lookup_not_disabled: "read_lookup l = Inl e \<Longrightarrow> \<not> errors_is e ErrDisabled"
  by (auto simp: read_lookup_def split: lookup.splits if_splits option.splits)

interpretation asked: address_resolver sent_only "Service ask" for ask :: "('w, lookup) op"
  by unfold_locales
    (auto simp: Service_def Service_Address_def Let_def split_beta sent_only_refl
      dest: read_lookup_not_disabled)

interpretation disabled: address_resolver sent_only "Disabled :: 'w net resolver"
  by unfold_locales (auto simp: Disabled_def sent_only_refl)

text \<open>
  \<open>addressResolver\<close> of \<open>cmd/keymaker/main.go\<close>, on the value of \<open>KEYMAKER_IP_LOOKUP\<close>.
\<close>

definition addressResolver :: "string \<Rightarrow> ('w, lookup) op \<Rightarrow> 'w net resolver" where
  "addressResolver setting ask = (if equal_fold setting ''off'' then Disabled else Service ask)"

interpretation chosen: address_resolver sent_only "addressResolver setting ask"
  for setting and ask :: "('w, lookup) op"
  by (cases "equal_fold setting ''off''")
    (simp_all add: addressResolver_def asked.address_resolver_axioms disabled.address_resolver_axioms)

end
