(* ===== verification/Legacy.thy ===== *)
theory Legacy
  imports Ovh_Client
begin

text \<open>
  \<open>internal/legacy/provider.go\<close>: the provider behind an application key, an application secret
  and a consumer key, over any client \<open>cl\<close>. The detail calls of a listing are made by a pool of
  workers; \<open>sched\<close> says in which order the calls of one pool happen, as a permutation of the
  indices that may depend on the state, and each call writes the slot of its index, as the
  goroutines do. The bound on calls in flight (\<open>fanOut\<close>) does not show at this granularity.
\<close>

section \<open>Errors of the domain\<close>

definition translate :: "err \<Rightarrow> err" where
  "translate e =
     (if status_code (Some e) = 403 then Wrap [Sentinel ErrPermissionDenied, e]
      else if status_code (Some e) = 404 then Wrap [Sentinel ErrNotFound, e]
      else e)"

section \<open>The pool of workers\<close>

type_synonym 's scheduler = "'s \<Rightarrow> nat \<Rightarrow> nat list"

definition fair_schedule :: "'s scheduler \<Rightarrow> bool" where
  "fair_schedule sched \<longleftrightarrow> (\<forall>s n. distinct (sched s n) \<and> set (sched s n) = {..<n})"

fun run_pool :: "(nat \<Rightarrow> ('s, 'r) op) \<Rightarrow> nat list \<Rightarrow> 'r list \<Rightarrow> ('s, 'r list) op" where
  "run_pool f [] slots s = (slots, s)"
| "run_pool f (i # is) slots s = (let (r, s') = f i s in run_pool f is (slots[i := r]) s')"

lemma run_pool_length [simp]: "length (fst (run_pool f is slots s)) = length slots"
  by (induction f "is" slots s rule: run_pool.induct) (simp_all add: Let_def split_beta)

lemma run_pool_rel:
  assumes "\<And>i s. R s (snd (f i s))" and "\<And>s. R s s" and "\<And>s t u. R s t \<Longrightarrow> R t u \<Longrightarrow> R s u"
  shows "R s (snd (run_pool f is slots s))"
proof (induction "is" arbitrary: slots s)
  case (Cons i "is")
  then show ?case using assms(1,3) by (simp add: Let_def split_beta) blast
qed (simp add: assms(2))

text \<open>A slot the pool does not visit keeps its value; a slot it visits holds the answer of a call.\<close>

lemma run_pool_unvisited:
  "i \<notin> set is \<Longrightarrow> fst (run_pool f is slots s) ! i = slots ! i"
  by (induction f "is" slots s rule: run_pool.induct) (auto simp: Let_def split_beta)

lemma run_pool_visited:
  assumes "\<And>i s. P i (fst (f i s))" and "distinct is" and "i \<in> set is" and "i < length slots"
  shows "P i (fst (run_pool f is slots s) ! i)"
  using assms(2-4)
proof (induction "is" arbitrary: slots s)
  case (Cons j js)
  then show ?case
    by (cases "i = j") (auto simp: Let_def split_beta run_pool_unvisited assms(1))
qed simp

text \<open>Where the answers do not depend on the order of the calls, neither do the slots.\<close>

lemma run_pool_answers:
  assumes "\<And>i s. fst (f i s) = g i" "distinct is" "set is = {..<n}" "length slots = n"
  shows "fst (run_pool f is slots s) = map g [0 ..< n]"
proof (rule nth_equalityI)
  fix i assume "i < length (fst (run_pool f is slots s))"
  then have i: "i < n" using assms(4) by simp
  have "fst (run_pool f is slots s) ! i = g i"
    using run_pool_visited [of "\<lambda>i r. r = g i" f "is" i slots s] assms i by simp
  then show "fst (run_pool f is slots s) ! i = map g [0 ..< n] ! i" using i by simp
qed (simp add: assms(4))

section \<open>The application of a credential\<close>

definition application_of :: "'s client \<Rightarrow> credential \<Rightarrow> ('s, application) op" where
  "application_of cl c s =
     (let (r, s1) = cl_application cl (app_id (cred_application c)) s in
      case r of
        Inr found \<Rightarrow> (found, s1)
      | Inl err \<Rightarrow>
          (let (v, s2) = cl_credential_application cl (cred_id c) s1;
               fallback = (case v of Inl e \<Rightarrow> Some e | Inr _ \<Rightarrow> None)
           in if status_code (Some err) = 404 \<and> status_code fallback = 404
              then (zero_application\<lparr>app_id := app_id (cred_application c), app_deleted := True\<rparr>, s2)
              else case v of
                  Inl _ \<Rightarrow> (cred_application c, s2)
                | Inr viaCredential \<Rightarrow>
                    (viaCredential\<lparr>app_external := (status_code (Some err) = 404)\<rparr>, s2)))"

lemma application_deleted:
  assumes "\<not> app_deleted (cred_application c)"
    and "\<And>i s a. fst (cl_credential_application cl i s) = Inr a \<Longrightarrow> \<not> app_deleted a"
    and "\<And>i s a. fst (cl_application cl i s) = Inr a \<Longrightarrow> \<not> app_deleted a"
  shows "app_deleted (fst (application_of cl c s)) \<longleftrightarrow>
           failed_with (fst (cl_application cl (app_id (cred_application c)) s)) = 404 \<and>
           failed_with (fst (cl_credential_application cl (cred_id c)
             (snd (cl_application cl (app_id (cred_application c)) s)))) = 404"
  using assms(1,3)
    assms(2) [of "cred_id c" "snd (cl_application cl (app_id (cred_application c)) s)"]
  by (auto simp: application_of_def failed_with_def status_code_def Let_def split_beta split: sum.split)

lemma api_applications_not_deleted:
  "fst (cl_application (api_client sdk) i s) = Inr a \<Longrightarrow> \<not> app_deleted a"
  "fst (cl_credential_application (api_client sdk) i s) = Inr a \<Longrightarrow> \<not> app_deleted a"
  by (auto simp: api_client_def api_Application_def api_CredentialApplication_def application_toDomain_def
      Let_def split_beta split: sum.splits)

text \<open>
  The application of a key is presented as deleted exactly when both routes to it answered
  not found: the one by application, which an application of another account also answers so,
  and the one through the key. Any other failure leaves it as it was read.
\<close>

lemma deleted_iff_both_not_found:
  assumes "\<not> app_deleted (cred_application c)"
  shows "app_deleted (fst (application_of (api_client sdk) c s)) \<longleftrightarrow>
           failed_with (fst (api_Application sdk (app_id (cred_application c)) s)) = 404 \<and>
           failed_with (fst (api_CredentialApplication sdk (cred_id c)
             (snd (api_Application sdk (app_id (cred_application c)) s)))) = 404"
  using application_deleted [OF assms, of "api_client sdk" s] api_applications_not_deleted [of sdk]
  by (simp add: api_client_def)

lemma deleted_iff_both_not_found_witness:
  "app_deleted (fst (application_of (api_client
      \<lparr>sdk_call = (\<lambda>_ w. (Inl (ApiError 404), w)), sdk_pause = (\<lambda>_ w. (False, w)), sdk_ctx_ended = (\<lambda>_. False)\<rparr>)
      zero_credential \<lparr>net_world = (), net_sent = []\<rparr>))"
proof -
  have kept: "\<not> app_deleted (cred_application zero_credential)" by code_simp
  show ?thesis
    unfolding deleted_iff_both_not_found [OF kept] by code_simp
qed

text \<open>One representative credential per application, in the order of the list.\<close>

fun representatives :: "int list \<Rightarrow> credential list \<Rightarrow> credential list" where
  "representatives seen [] = []"
| "representatives seen (c # cs) =
     (let i = app_id (cred_application c) in
      if i \<noteq> 0 \<and> i \<notin> set seen then c # representatives (i # seen) cs else representatives seen cs)"

definition resolveApplications ::
  "'s scheduler \<Rightarrow> 's client \<Rightarrow> credential list \<Rightarrow> ('s, credential list) op" where
  "resolveApplications sched cl cs s =
     (let reps = representatives [] cs;
          n = length reps;
          (resolved, s1) = run_pool (\<lambda>i. application_of cl (reps ! i)) (sched s n)
                             (replicate n zero_application) s;
          known = map_of (zip (map (\<lambda>c. app_id (cred_application c)) reps) resolved)
      in (map (\<lambda>c. case known (app_id (cred_application c)) of
                     None \<Rightarrow> c
                   | Some a \<Rightarrow> c\<lparr>cred_application := a\<rparr>) cs, s1))"

section \<open>Reading credentials\<close>

text \<open>
  What one turn of a worker leaves in the three slices of its index: the credential, the mark of
  one revoked meanwhile, or the failure. The zero slots are those of slices just made.
\<close>

datatype fetch = Fetched credential | Revoked | Failed err

definition fetch_one :: "'s client \<Rightarrow> int \<Rightarrow> ('s, fetch) op" where
  "fetch_one cl i s =
     (let (r, s') = cl_credential cl i s
      in (case r of
            Inr found \<Rightarrow> Fetched found
          | Inl e \<Rightarrow> if status_code (Some e) = 404 then Revoked else Failed (Wrap [translate e]), s'))"

definition fetch_failure :: "fetch \<Rightarrow> err option" where
  "fetch_failure f = (case f of Failed e \<Rightarrow> Some e | _ \<Rightarrow> None)"

fun fetched_credentials :: "fetch list \<Rightarrow> credential list" where
  "fetched_credentials [] = []"
| "fetched_credentials (Fetched c # fs) = c # fetched_credentials fs"
| "fetched_credentials (_ # fs) = fetched_credentials fs"

definition unreadable_count :: "fetch list \<Rightarrow> int" where
  "unreadable_count fs = int (length (filter (\<lambda>f. fetch_failure f \<noteq> None) fs))"

definition collect_fetched :: "fetch list \<Rightarrow> credential list option \<times> err option" where
  "collect_fetched fs =
     (let credentials = fetched_credentials fs in
      case errors_join (map fetch_failure fs) of
        None \<Rightarrow> (Some credentials, None)
      | Some joined \<Rightarrow>
          if errors_is joined ErrPermissionDenied \<or> credentials = [] then (None, Some joined)
          else (Some credentials, Some (IncompleteError (unreadable_count fs) joined)))"

definition fetchAll ::
  "'s scheduler \<Rightarrow> 's client \<Rightarrow> int list \<Rightarrow> ('s, credential list option \<times> err option) op" where
  "fetchAll sched cl ids s =
     (let n = length ids;
          (slots, s1) = run_pool (\<lambda>i. fetch_one cl (ids ! i)) (sched s n)
                          (replicate n (Fetched zero_credential)) s
      in (collect_fetched slots, s1))"

definition legacy_List ::
  "'s scheduler \<Rightarrow> 's client \<Rightarrow> status \<Rightarrow> ('s, credential list option \<times> err option) op" where
  "legacy_List sched cl status s =
     (let (r, s1) = cl_list_credential_ids cl status s in
      case r of
        Inl e \<Rightarrow> ((None, Some (Wrap [translate e])), s1)
      | Inr ids \<Rightarrow>
          (let ((credentials, err), s2) = fetchAll sched cl ids s1 in
           case credentials of
             None \<Rightarrow> ((None, err), s2)
           | Some cs \<Rightarrow> (let (cs', s3) = resolveApplications sched cl cs s2 in ((Some cs', err), s3))))"

text \<open>What a listing makes of the answers of the detail calls, by identifier.\<close>

definition readable :: "(int \<Rightarrow> err + credential) \<Rightarrow> int list \<Rightarrow> credential list" where
  "readable answer ids = concat (map (\<lambda>i. case answer i of Inl _ \<Rightarrow> [] | Inr c \<Rightarrow> [c]) ids)"

definition failing :: "(int \<Rightarrow> err + credential) \<Rightarrow> int list \<Rightarrow> err list" where
  "failing answer ids =
     concat (map (\<lambda>i. case answer i of
         Inl e \<Rightarrow> if status_code (Some e) = 404 then [] else [e]
       | Inr _ \<Rightarrow> []) ids)"

definition classify :: "err + credential \<Rightarrow> fetch" where
  "classify r =
     (case r of
        Inr found \<Rightarrow> Fetched found
      | Inl e \<Rightarrow> if status_code (Some e) = 404 then Revoked else Failed (Wrap [translate e]))"

lemma fetch_one_classify: "fst (fetch_one cl i s) = classify (fst (cl_credential cl i s))"
  by (simp add: fetch_one_def classify_def Let_def split_beta)

lemma fetched_classify: "fetched_credentials (map (classify \<circ> answer) ids) = readable answer ids"
  by (induction ids) (auto simp: readable_def classify_def split: sum.splits)

lemma failures_classify:
  "List.map_filter (\<lambda>e. e) (map fetch_failure (map (classify \<circ> answer) ids)) =
     map (\<lambda>e. Wrap [translate e]) (failing answer ids)"
  by (induction ids)
    (auto simp: failing_def classify_def fetch_failure_def List.map_filter_simps split: sum.splits)

lemma unreadable_classify: "unreadable_count (map (classify \<circ> answer) ids) = int (length (failing answer ids))"
  by (induction ids)
    (auto simp: unreadable_count_def failing_def classify_def fetch_failure_def split: sum.splits)

lemma fetchAll_answers:
  assumes "fair_schedule sched" "\<And>i s. fst (cl_credential cl i s) = answer i"
  shows "fst (fetchAll sched cl ids s) = collect_fetched (map (classify \<circ> answer) ids)"
proof -
  have "fst (run_pool (\<lambda>i. fetch_one cl (ids ! i)) (sched s (length ids))
      (replicate (length ids) (Fetched zero_credential)) s) =
      map (\<lambda>i. classify (answer (ids ! i))) [0 ..< length ids]"
    using assms by (intro run_pool_answers) (simp_all add: fair_schedule_def fetch_one_classify)
  also have "\<dots> = map (classify \<circ> answer) ids"
    by (intro nth_equalityI) simp_all
  finally show ?thesis by (simp add: fetchAll_def Let_def split_beta)
qed


text \<open>A client whose detail calls answer from a table, for the witness.\<close>

definition table_client :: "(int \<Rightarrow> err + credential) \<Rightarrow> unit net client" where
  "table_client table =
     (api_client \<lparr>sdk_call = (\<lambda>_ w. (Inl (ApiError 404), w)), sdk_pause = (\<lambda>_ w. (False, w)),
                  sdk_ctx_ended = (\<lambda>_. False)\<rparr>)
     \<lparr>cl_credential := (\<lambda>i s. (table i, s))\<rparr>"

definition some_table :: "int \<Rightarrow> err + credential" where
  "some_table i =
     (if i = 1 then Inl (ApiError 404) else if i = 2 then Inl (ApiError 500)
      else Inr (zero_credential\<lparr>cred_id := i\<rparr>))"


text \<open>\<open>Get\<close> and \<open>Current\<close> resolve the application of one credential.\<close>

definition resolve_one :: "'s scheduler \<Rightarrow> 's client \<Rightarrow> credential \<Rightarrow> ('s, credential) op" where
  "resolve_one sched cl c s = (let (cs, s') = resolveApplications sched cl [c] s in (cs ! 0, s'))"

definition legacy_Get :: "'s scheduler \<Rightarrow> 's client \<Rightarrow> int \<Rightarrow> ('s, err + credential) op" where
  "legacy_Get sched cl i s =
     (let (r, s1) = cl_credential cl i s in
      case r of
        Inl e \<Rightarrow> (Inl (Wrap [translate e]), s1)
      | Inr found \<Rightarrow> (let (c, s2) = resolve_one sched cl found s1 in (Inr c, s2)))"

definition legacy_Current :: "'s scheduler \<Rightarrow> 's client \<Rightarrow> ('s, err + credential) op" where
  "legacy_Current sched cl s =
     (let (r, s1) = cl_current cl s in
      case r of
        Inl e \<Rightarrow> (Inl (Wrap [translate e]), s1)
      | Inr found \<Rightarrow> (let (c, s2) = resolve_one sched cl found s1 in (Inr c, s2)))"

section \<open>Applications\<close>

definition fetch_application :: "'s client \<Rightarrow> int \<Rightarrow> ('s, err + application) op" where
  "fetch_application cl i s =
     (let (r, s') = cl_application cl i s
      in (case r of Inl e \<Rightarrow> Inl (Wrap [translate e]) | Inr a \<Rightarrow> Inr a, s'))"

definition application_failure :: "err + application \<Rightarrow> err option" where
  "application_failure r = (case r of Inl e \<Rightarrow> Some e | Inr _ \<Rightarrow> None)"

fun read_applications :: "(err + application) list \<Rightarrow> application list" where
  "read_applications [] = []"
| "read_applications (Inl _ # rs) = read_applications rs"
| "read_applications (Inr a # rs) = a # read_applications rs"

definition collect_applications :: "(err + application) list \<Rightarrow> application list option \<times> err option" where
  "collect_applications slots =
     (let applications = read_applications slots;
          unreadable = int (length (filter (\<lambda>r. application_failure r \<noteq> None) slots))
      in case errors_join (map application_failure slots) of
           None \<Rightarrow> (Some applications, None)
         | Some joined \<Rightarrow>
             if applications = [] then (None, Some joined)
             else (Some applications, Some (IncompleteError unreadable joined)))"

definition legacy_Applications ::
  "'s scheduler \<Rightarrow> 's client \<Rightarrow> ('s, application list option \<times> err option) op" where
  "legacy_Applications sched cl s =
     (let (r, s1) = cl_list_application_ids cl s in
      case r of
        Inl e \<Rightarrow> ((None, Some (Wrap [translate e])), s1)
      | Inr ids \<Rightarrow>
          (let n = length ids;
               (slots, s2) = run_pool (\<lambda>i. fetch_application cl (ids ! i)) (sched s1 n)
                               (replicate n (Inr zero_application)) s1
           in (collect_applications slots, s2)))"

definition legacy_DeleteApplicationAgainst ::
  "'s client \<Rightarrow> credential list \<Rightarrow> int \<Rightarrow> ('s, err option) op" where
  "legacy_DeleteApplicationAgainst cl cs i s =
     (if list_ex (\<lambda>c. app_id (cred_application c) = i) cs
      then (Some (Sentinel ErrApplicationInUse), s)
      else (let (e, s') = cl_delete_application cl i s
            in (map_option (\<lambda>e. Wrap [translate e]) e, s')))"

definition legacy_DeleteApplication ::
  "'s scheduler \<Rightarrow> 's client \<Rightarrow> int \<Rightarrow> ('s, err option) op" where
  "legacy_DeleteApplication sched cl i s =
     (let ((credentials, err), s1) = legacy_List sched cl [] s in
      case credentials of
        None \<Rightarrow> (Some (Wrap (case err of None \<Rightarrow> [] | Some e \<Rightarrow> [e])), s1)
      | Some cs \<Rightarrow> legacy_DeleteApplicationAgainst cl cs i s1)"

definition legacy_DeletableApplication :: "credential \<Rightarrow> int \<Rightarrow> bool" where
  "legacy_DeletableApplication current i = permits current ''DELETE'' (ApplicationPath i)"

section \<open>Revocation\<close>

definition legacy_RevokeAgainst :: "'s client \<Rightarrow> credential \<Rightarrow> int \<Rightarrow> ('s, err option) op" where
  "legacy_RevokeAgainst cl current i s =
     (if cred_id current = i then (Some (Sentinel ErrSelfRevocation), s)
      else (let (e, s') = cl_delete_credential cl i s
            in (map_option (\<lambda>e. Wrap [translate e]) e, s')))"

definition legacy_Revoke :: "'s client \<Rightarrow> int \<Rightarrow> ('s, err option) op" where
  "legacy_Revoke cl i s =
     (let (r, s1) = cl_current cl s in
      case r of
        Inl e \<Rightarrow> (Some (Wrap [Sentinel ErrIdentityUnavailable, translate e]), s1)
      | Inr current \<Rightarrow> legacy_RevokeAgainst cl current i s1)"

definition legacy_Retire :: "'s client \<Rightarrow> ('s, err + retirement) op" where
  "legacy_Retire cl s =
     (let (r, s1) = cl_current cl s in
      case r of
        Inl e \<Rightarrow> (Inl (Wrap [Sentinel ErrIdentityUnavailable, translate e]), s1)
      | Inr current \<Rightarrow>
          (let (deleted, s2) =
             (if permits current ''DELETE'' (CredentialPath (cred_id current))
              then (let (e, s') = cl_delete_credential cl (cred_id current) s1 in (e = None, s'))
              else (False, s1))
           in if deleted then (Inr \<lparr>ret_id = cred_id current, ret_deleted = True\<rparr>, s2)
              else (let (e, s3) = cl_logout cl s2 in
                    case e of
                      Some e \<Rightarrow> (Inl (Wrap [translate e]), s3)
                    | None \<Rightarrow> (Inr \<lparr>ret_id = cred_id current, ret_deleted = False\<rparr>, s3))))"

definition legacy_Revocable :: "credential \<Rightarrow> credential \<Rightarrow> bool" where
  "legacy_Revocable current target = permits current ''DELETE'' (CredentialPath (cred_id target))"

section \<open>Addresses\<close>

definition legacy_SetAddresses :: "'s client \<Rightarrow> int \<Rightarrow> prefix list \<Rightarrow> ('s, err option) op" where
  "legacy_SetAddresses cl i allowed s =
     (let (e, s') = cl_set_allowed_ips cl i allowed s
      in (map_option (\<lambda>e. Wrap [translate e]) e, s'))"

definition legacy_AddressesEditable :: "credential \<Rightarrow> credential \<Rightarrow> bool" where
  "legacy_AddressesEditable current target = permits current ''PUT'' (CredentialPath (cred_id target))"

definition legacy_provider :: "'s scheduler \<Rightarrow> 's client \<Rightarrow> 's provider" where
  "legacy_provider sched cl =
     \<lparr>pr_list = legacy_List sched cl,
      pr_get = legacy_Get sched cl,
      pr_revoke = legacy_Revoke cl,
      pr_revoke_against = legacy_RevokeAgainst cl,
      pr_applications = legacy_Applications sched cl,
      pr_delete_application = legacy_DeleteApplication sched cl,
      pr_delete_application_against = legacy_DeleteApplicationAgainst cl,
      pr_deletable_application = legacy_DeletableApplication,
      pr_current = legacy_Current sched cl,
      pr_retire = legacy_Retire cl,
      pr_revocable = legacy_Revocable,
      pr_set_addresses = legacy_SetAddresses cl,
      pr_addresses_editable = legacy_AddressesEditable\<rparr>"

section \<open>The provider keeps the contract of the interface\<close>

text \<open>Who the account says the tool is: the key its identity call answers.\<close>

definition client_identity :: "'s client \<Rightarrow> 's \<Rightarrow> int option" where
  "client_identity cl s =
     (case fst (cl_current cl s) of Inl _ \<Rightarrow> None | Inr c \<Rightarrow> Some (cred_id c))"

lemma resolveApplications_ids [simp]:
  "map cred_id (fst (resolveApplications sched cl cs s)) = map cred_id cs"
  by (simp add: resolveApplications_def Let_def split_beta comp_def split: option.split)

lemma resolveApplications_length [simp]: "length (fst (resolveApplications sched cl cs s)) = length cs"
  by (simp add: resolveApplications_def Let_def split_beta)

lemma resolve_one_id [simp]: "cred_id (fst (resolve_one sched cl c s)) = cred_id c"
  by (simp add: resolve_one_def resolveApplications_def Let_def split_beta split: option.split)

lemma collect_fetched_nil: "fst (collect_fetched fs) = None \<Longrightarrow> snd (collect_fetched fs) \<noteq> None"
  by (cases "errors_join (map fetch_failure fs)") (auto simp: collect_fetched_def Let_def)

lemma collect_applications_nil:
  "collect_applications rs = (None, e) \<Longrightarrow> e \<noteq> None"
  by (rule notI) (auto simp: collect_applications_def Let_def split: option.splits if_splits)

lemma errors_is_self [simp]: "errors_is (Sentinel t) t" "errors_is (Wrap (Sentinel t # es)) t"
  by simp_all

context client_contract
begin

lemma application_of_frame: "only {} s (snd (application_of cl c s))"
proof -
  have a: "only {} s (snd (cl_application cl i s))" for i by (rule cl_application_frame)
  have b: "only {} t (snd (cl_credential_application cl i t))" for i t
    by (rule cl_credential_application_frame)
  show ?thesis
    using a only_trans [OF a b]
    by (simp add: application_of_def Let_def split_beta split: sum.split)
qed

lemma run_pool_frame:
  "(\<And>i s. only {} s (snd (f i s))) \<Longrightarrow> only {} s (snd (run_pool f is slots s))"
  by (rule run_pool_rel) (auto intro: only_refl only_trans)

lemma resolveApplications_frame: "only {} s (snd (resolveApplications sched cl cs s))"
  by (simp add: resolveApplications_def Let_def split_beta run_pool_frame application_of_frame)

lemma resolve_one_frame: "only {} s (snd (resolve_one sched cl c s))"
  by (simp add: resolve_one_def Let_def split_beta resolveApplications_frame)

lemma fetchAll_frame: "only {} s (snd (fetchAll sched cl ids s))"
  by (simp add: fetchAll_def Let_def split_beta run_pool_frame fetch_one_def cl_credential_frame)

lemma legacy_List_frame: "only {} s (snd (legacy_List sched cl st s))"
proof -
  have ids: "only {} s (snd (cl_list_credential_ids cl st s))" by (rule cl_list_credential_ids_frame)
  note all = only_trans [OF ids fetchAll_frame]
  note resolved = only_trans [OF all resolveApplications_frame]
  show ?thesis
    using ids all resolved
    by (simp add: legacy_List_def Let_def split_beta split: sum.split option.split)
qed

lemma legacy_Applications_frame: "only {} s (snd (legacy_Applications sched cl s))"
proof -
  have ids: "only {} s (snd (cl_list_application_ids cl s))" by (rule cl_list_application_ids_frame)
  have one: "only {} t (snd (fetch_application cl i t))" for i t
    by (simp add: fetch_application_def Let_def split_beta cl_application_frame)
  show ?thesis
    using ids only_trans [OF ids run_pool_frame [OF one]]
    by (simp add: legacy_Applications_def Let_def split_beta split: sum.split)
qed

lemma legacy_RevokeAgainst_frame: "only {RevokeKey i} s (snd (legacy_RevokeAgainst cl c i s))"
  by (simp add: legacy_RevokeAgainst_def Let_def split_beta only_refl cl_delete_credential_frame)

lemma legacy_Revoke_frame: "only {RevokeKey i} s (snd (legacy_Revoke cl i s))"
  using only_none [OF cl_current_frame] only_after_read [OF cl_current_frame legacy_RevokeAgainst_frame]
  by (simp add: legacy_Revoke_def Let_def split_beta split: sum.split)

lemma legacy_DeleteApplicationAgainst_frame:
  "only {DeleteApp i} s (snd (legacy_DeleteApplicationAgainst cl cs i s))"
  by (simp add: legacy_DeleteApplicationAgainst_def Let_def split_beta only_refl cl_delete_application_frame)

lemma legacy_DeleteApplication_frame:
  "only {DeleteApp i} s (snd (legacy_DeleteApplication sched cl i s))"
  using only_none [OF legacy_List_frame]
    only_after_read [OF legacy_List_frame legacy_DeleteApplicationAgainst_frame]
  by (simp add: legacy_DeleteApplication_def Let_def split_beta split: option.split)

lemma legacy_Retire_frame:
  "only ({RevokeKey i | i. client_identity cl s = Some i} \<union> {ExpireKeyInUse}) s (snd (legacy_Retire cl s))"
proof (cases "fst (cl_current cl s)")
  case (Inl e)
  then show ?thesis
    using only_none [OF cl_current_frame] by (simp add: legacy_Retire_def Let_def split_beta)
next
  case (Inr c)
  let ?s1 = "snd (cl_current cl s)" and ?E = "{RevokeKey (cred_id c), ExpireKeyInUse}"
  have id: "client_identity cl s = Some (cred_id c)" using Inr by (simp add: client_identity_def)
  have s1: "only ?E s ?s1" using cl_current_frame by (rule only_none)
  have del: "only ?E t (snd (cl_delete_credential cl (cred_id c) t))" for t
    using cl_delete_credential_frame by (rule only_mono) simp
  have out: "only ?E t (snd (cl_logout cl t))" for t
    using cl_logout_frame by (rule only_mono) simp
  note paths = only_trans [OF s1 del] only_trans [OF only_trans [OF s1 del] out] only_trans [OF s1 out]
  have "only ?E s (snd (legacy_Retire cl s))"
    using Inr paths by (auto simp: legacy_Retire_def Let_def split_beta split: option.split)
  with id show ?thesis by (simp add: insert_commute)
qed

end

sublocale client_contract \<subseteq> legacy: provider_contract only "legacy_provider sched cl" "client_identity cl"
  for sched
proof unfold_locales
  fix i s e c cur cs st t ips failure
  let ?pr = "legacy_provider sched cl"
  show "only {} s (snd (pr_list ?pr st s))"
    by (simp add: legacy_provider_def legacy_List_frame)
  show "fst (pr_list ?pr st s) = (None, e) \<Longrightarrow> e \<noteq> None"
    by (auto simp: legacy_provider_def legacy_List_def fetchAll_def Let_def split_beta
        dest: collect_fetched_nil split: sum.splits option.splits)
  show "only {} s (snd (pr_get ?pr i s))"
    using cl_credential_frame only_trans [OF cl_credential_frame resolve_one_frame]
    by (simp add: legacy_provider_def legacy_Get_def Let_def split_beta split: sum.split)
  show "only {} s (snd (pr_current ?pr s))"
    using cl_current_frame only_trans [OF cl_current_frame resolve_one_frame]
    by (simp add: legacy_provider_def legacy_Current_def Let_def split_beta split: sum.split)
  show "fst (pr_current ?pr s) = Inr c \<Longrightarrow> client_identity cl s = Some (cred_id c)"
    by (auto simp: legacy_provider_def legacy_Current_def client_identity_def Let_def split_beta
        split: sum.splits)
  show "fst (pr_current ?pr s) = Inl failure \<Longrightarrow> client_identity cl s = None"
    by (auto simp: legacy_provider_def legacy_Current_def client_identity_def Let_def split_beta
        split: sum.splits)
  show "only {} s (snd (pr_applications ?pr s))"
    by (simp add: legacy_provider_def legacy_Applications_frame)
  show "fst (pr_applications ?pr s) = (None, e) \<Longrightarrow> e \<noteq> None"
    by (auto simp: legacy_provider_def legacy_Applications_def Let_def split_beta
        dest: collect_applications_nil split: sum.splits)
  show "only {RevokeKey i} s (snd (pr_revoke ?pr i s))"
    by (simp add: legacy_provider_def legacy_Revoke_frame)
  show "client_identity cl s = Some i \<Longrightarrow> only {} s (snd (pr_revoke ?pr i s)) \<and>
      fst (pr_revoke ?pr i s) = Some (Sentinel ErrSelfRevocation)"
    using cl_current_frame [of s]
    by (auto simp: legacy_provider_def legacy_Revoke_def legacy_RevokeAgainst_def client_identity_def
        Let_def split_beta split: sum.splits)
  show "client_identity cl s = None \<Longrightarrow> only {} s (snd (pr_revoke ?pr i s)) \<and>
      (\<exists>e. fst (pr_revoke ?pr i s) = Some e \<and> errors_is e ErrIdentityUnavailable)"
    using cl_current_frame [of s]
    by (auto simp: legacy_provider_def legacy_Revoke_def client_identity_def
        Let_def split_beta split: sum.splits)
  show "pr_revoke_against ?pr cur (cred_id cur) s = (Some (Sentinel ErrSelfRevocation), s)"
    by (simp add: legacy_provider_def legacy_RevokeAgainst_def)
  show "only {RevokeKey i} s (snd (pr_revoke_against ?pr cur i s))"
    by (simp add: legacy_provider_def legacy_RevokeAgainst_frame)
  show "only {DeleteApp i} s (snd (pr_delete_application ?pr i s))"
    by (simp add: legacy_provider_def legacy_DeleteApplication_frame)
  show "c \<in> set cs \<Longrightarrow> app_id (cred_application c) = i \<Longrightarrow>
      pr_delete_application_against ?pr cs i s = (Some (Sentinel ErrApplicationInUse), s)"
    by (auto simp: legacy_provider_def legacy_DeleteApplicationAgainst_def list_ex_iff)
  show "only {DeleteApp i} s (snd (pr_delete_application_against ?pr cs i s))"
    by (simp add: legacy_provider_def legacy_DeleteApplicationAgainst_frame)
  show "only ({RevokeKey i | i. client_identity cl s = Some i} \<union> {ExpireKeyInUse}) s (snd (pr_retire ?pr s))"
    by (simp only: legacy_provider_def provider.select_convs legacy_Retire_frame)
  show "client_identity cl s = None \<Longrightarrow>
      only {} s (snd (pr_retire ?pr s)) \<and> (\<exists>e. fst (pr_retire ?pr s) = Inl e)"
    using cl_current_frame [of s]
    by (auto simp: legacy_provider_def legacy_Retire_def client_identity_def Let_def split_beta
        split: sum.splits)
  show "only {RewriteAddresses i ips} s (snd (pr_set_addresses ?pr i ips s))"
    by (simp add: legacy_provider_def legacy_SetAddresses_def Let_def split_beta cl_set_allowed_ips_frame)
  show "pr_revocable ?pr cur t \<longleftrightarrow> permits cur ''DELETE'' (CredentialPath (cred_id t))"
    by (simp add: legacy_provider_def legacy_Revocable_def)
  show "pr_deletable_application ?pr cur i \<longleftrightarrow> permits cur ''DELETE'' (ApplicationPath i)"
    by (simp add: legacy_provider_def legacy_DeletableApplication_def)
  show "pr_addresses_editable ?pr cur t \<longleftrightarrow> permits cur ''PUT'' (CredentialPath (cred_id t))"
    by (simp add: legacy_provider_def legacy_AddressesEditable_def)
qed

end
