(* ===== verification/Catalog.thy ===== *)
theory Catalog
  imports Legacy
begin

text \<open>
  \<open>internal/catalog\<close>: the routes the explorer browses. A schema is parsed into routes, the routes
  of every branch are merged, and a fetch is all of the API or none of it. Decoding JSON is an
  argument (\<open>decoders\<close>), as is the source of the documents. The lemmas tie the rule of a route to the
  calls it covers and say what a merge and a fetched catalogue hold.
\<close>

section \<open>Data\<close>

record operation =
  op_method :: string
  op_description :: string
  op_deprecated :: bool

record route =
  rt_path :: string
  rt_operations :: "operation list"

record snapshot =
  sn_routes :: "route list"
  sn_branches :: "string list"
  sn_taken :: time
  sn_live :: bool

record schema_operation =
  so_method :: string
  so_description :: string
  so_status :: string

definition zero_snapshot :: snapshot where
  "zero_snapshot = \<lparr>sn_routes = [], sn_branches = [], sn_taken = 0, sn_live = False\<rparr>"

type_synonym schema_document = "(string \<times> schema_operation list) list"

record decoders =
  de_index :: "string \<Rightarrow> string list option"
  de_schema :: "string \<Rightarrow> schema_document option"

record 's source =
  src_index :: "('s, err + string) op"
  src_schema :: "string \<Rightarrow> ('s, err + string) op"

section \<open>Parsing\<close>

text \<open>The expression \<open>branchPath\<close>, piece by piece.\<close>

definition branch_piece :: "string \<Rightarrow> bool" where
  "branch_piece piece \<longleftrightarrow>
     (case piece of
        [] \<Rightarrow> False
      | c # cs \<Rightarrow> ascii_alnum c \<and> list_all (\<lambda>d. ascii_alnum d \<or> d \<in> set ''._-'') cs)"

definition branchPath :: "string \<Rightarrow> bool" where
  "branchPath path \<longleftrightarrow>
     (case split_char (CHR ''/'') path of
        x # y # ys \<Rightarrow> x = [] \<and> list_all branch_piece (y # ys)
      | _ \<Rightarrow> False)"

definition parseIndex :: "string list option \<Rightarrow> err + string list" where
  "parseIndex doc =
     (case doc of
        None \<Rightarrow> Inl (Failure ''unreadable API index'')
      | Some paths \<Rightarrow>
          (let branches = filter branchPath paths in
           if branches = [] then Inl (Failure ''the API index advertises no usable branch'')
           else Inr branches))"

definition schemaPath :: "string \<Rightarrow> string" where
  "schemaPath branch = branch @ ''.json''"

definition schema_op :: "schema_operation \<Rightarrow> operation" where
  "schema_op o' =
     \<lparr>op_method = so_method o', op_description = trim_space (so_description o'),
      op_deprecated = (so_status o' = ''DEPRECATED'')\<rparr>"

fun schema_routes :: "schema_document \<Rightarrow> route list" where
  "schema_routes [] = []"
| "schema_routes ((path, ops) # apis) =
     (let operations = map schema_op (filter (\<lambda>o'. so_method o' \<noteq> []) ops) in
      if path = [] \<or> operations = [] then schema_routes apis
      else \<lparr>rt_path = path, rt_operations = operations\<rparr> # schema_routes apis)"

definition parseSchema :: "schema_document option \<Rightarrow> err + route list" where
  "parseSchema doc =
     (case doc of
        None \<Rightarrow> Inl (Failure ''unreadable schema'')
      | Some apis \<Rightarrow> Inr (schema_routes apis))"

section \<open>Merging\<close>

definition add_operation :: "(string \<Rightarrow> operation list) \<Rightarrow> string \<times> operation \<Rightarrow> string \<Rightarrow> operation list" where
  "add_operation by_path entry =
     (case entry of (path, o') \<Rightarrow>
        if list_ex (\<lambda>x. op_method x = op_method o') (by_path path) then by_path
        else by_path(path := by_path path @ [o']))"

definition entries_of :: "route list list \<Rightarrow> (string \<times> operation) list" where
  "entries_of batches =
     concat (map (\<lambda>r. map (Pair (rt_path r)) (rt_operations r)) (concat batches))"

text \<open>The keys of \<open>byPath\<close> are the paths of the entries; both sorts are on distinct keys.\<close>

definition merge :: "route list list \<Rightarrow> route list" where
  "merge batches =
     (let entries = entries_of batches;
          by_path = foldl add_operation (\<lambda>_. []) entries
      in map (\<lambda>path. \<lparr>rt_path = path, rt_operations = sort_key op_method (by_path path)\<rparr>)
           (sort (remdups (map fst entries))))"

section \<open>From a route to a rule\<close>

definition plain_char :: "char \<Rightarrow> bool" where
  "plain_char c \<longleftrightarrow> c \<noteq> CHR ''/'' \<and> c \<noteq> CHR ''{'' \<and> c \<noteq> CHR ''}''"

text \<open>
  A placeholder at the head of a path: what follows it, where there is one.
\<close>

definition placeholder_rest :: "string \<Rightarrow> string option" where
  "placeholder_rest s =
     (case s of
        [] \<Rightarrow> None
      | c # cs \<Rightarrow>
          if c \<noteq> CHR ''{'' then None
          else (case dropWhile plain_char cs of
                  [] \<Rightarrow> None
                | d # rest \<Rightarrow> if d = CHR ''}'' then Some rest else None))"

lemma placeholder_rest_shorter: "placeholder_rest s = Some r \<Longrightarrow> length r < length s"
proof -
  assume p: "placeholder_rest s = Some r"
  then obtain c cs d where s: "s = c # cs" and d: "dropWhile plain_char cs = d # r"
    by (auto simp: placeholder_rest_def split: list.splits if_splits)
  have "length (dropWhile plain_char cs) \<le> length cs" by (rule length_dropWhile_le)
  then show ?thesis using s d by simp
qed

function RulePath :: "string \<Rightarrow> string" where
  "RulePath s =
     (case s of
        [] \<Rightarrow> []
      | c # cs \<Rightarrow>
          (case placeholder_rest s of
             Some rest \<Rightarrow> CHR ''*'' # RulePath rest
           | None \<Rightarrow> c # RulePath cs))"
  by pat_completeness auto
termination
  by (relation "measure length") (auto dest: placeholder_rest_shorter)

declare RulePath.simps [simp del]

fun Parameterised :: "string \<Rightarrow> bool" where
  "Parameterised [] = False"
| "Parameterised (c # cs) = (placeholder_rest (c # cs) \<noteq> None \<or> Parameterised cs)"

lemma RulePath_Nil [simp]: "RulePath [] = []"
  by (simp add: RulePath.simps)

lemma RulePath_Cons:
  "RulePath (c # cs) =
     (case placeholder_rest (c # cs) of
        Some rest \<Rightarrow> CHR ''*'' # RulePath rest
      | None \<Rightarrow> c # RulePath cs)"
  by (simp add: RulePath.simps)

lemma RulePath_length: "length (RulePath s) \<le> length s"
proof (induction s rule: RulePath.induct)
  case (1 s)
  show ?case
  proof (cases s)
    case (Cons c cs)
    show ?thesis
    proof (cases "placeholder_rest s")
      case None
      then show ?thesis using 1(1) [OF Cons None] Cons by (simp add: RulePath_Cons)
    next
      case (Some rest)
      then show ?thesis
        using 1(2) [OF Cons Some] Cons placeholder_rest_shorter [OF Some] by (simp add: RulePath_Cons)
    qed
  qed simp
qed

text \<open>A placeholder is two characters at least, so replacing one shortens the path.\<close>

lemma placeholder_rest_two: "placeholder_rest s = Some r \<Longrightarrow> length r + 2 \<le> length s"
proof -
  assume p: "placeholder_rest s = Some r"
  then obtain c cs d where s: "s = c # cs" and d: "dropWhile plain_char cs = d # r"
    by (auto simp: placeholder_rest_def split: list.splits if_splits)
  have "length (dropWhile plain_char cs) \<le> length cs" by (rule length_dropWhile_le)
  then show ?thesis using s d by simp
qed

lemma Parameterised_iff: "Parameterised s \<longleftrightarrow> RulePath s \<noteq> s"
proof (induction s)
  case (Cons c cs)
  show ?case
  proof (cases "placeholder_rest (c # cs)")
    case None
    then show ?thesis using Cons by (simp add: RulePath_Cons)
  next
    case (Some rest)
    have "length (RulePath (c # cs)) < length (c # cs)"
      using RulePath_length [of rest] placeholder_rest_two [OF Some] Some
      by (simp add: RulePath_Cons)
    then have "RulePath (c # cs) \<noteq> c # cs" by (metis less_irrefl)
    with Some show ?thesis by simp
  qed
qed simp

text \<open>
  A call to a documented route: its path with some text in the place of every placeholder.
\<close>

inductive call_of :: "string \<Rightarrow> string \<Rightarrow> bool" where
  call_Nil: "call_of [] []"
| call_char: "placeholder_rest (c # d) = None \<Longrightarrow> call_of d p \<Longrightarrow> call_of (c # d) (c # p)"
| call_value: "placeholder_rest d = Some rest \<Longrightarrow> call_of rest p \<Longrightarrow> call_of d (v @ p)"

inductive_simps call_of_Nil [simp]: "call_of [] p"

lemma glob_self_char: "glob p s \<Longrightarrow> glob (c # p) (c # s)"
  by (cases "c = CHR ''*''") (auto intro: glob_char simp: glob_Cons_star intro: exI [of _ "[c]"])

lemma glob_RulePath: "call_of d p \<Longrightarrow> glob (RulePath d) p"
proof (induction rule: call_of.induct)
  case (call_value d rest p v)
  then show ?case by (cases d) (auto simp: RulePath_Cons placeholder_rest_def intro: glob_star)
qed (auto simp: RulePath_Cons intro: glob_Nil glob_self_char)

text \<open>
  C25: The access rule shown for a documented route covers every call to that route: whatever
  text stands in the place of its parameters, \<open>Permits\<close> accepts the call under the rule. And the
  route is reported as widened exactly when its rule is not the route itself.
\<close>

theorem RulePath_covers_calls:
  "(call_of documented path \<longrightarrow>
      permits (c\<lparr>cred_rules := [mk_rule method (RulePath documented)]\<rparr>) method path) \<and>
   (Parameterised documented \<longleftrightarrow> RulePath documented \<noteq> documented)"
  by (simp add: permits_def match_path_glob glob_RulePath Parameterised_iff)

theorem RulePath_covers_calls_witness:
  "permits (zero_credential\<lparr>cred_rules := [mk_rule ''GET'' (RulePath ''/me/{id}/x'')]\<rparr>) ''GET'' ''/me/42/x''"
proof -
  have "call_of ''/me/42/x'' ''/me/42/x''"
    by (intro call_char call_Nil) code_simp+
  have rest: "call_of ''/x'' ''/x''" by (intro call_char call_Nil) code_simp+
  have "call_of ''{id}/x'' (''42'' @ ''/x'')"
    by (rule call_value [OF _ rest]) code_simp
  then have "call_of ''/me/{id}/x'' ''/me/42/x''"
    by (intro call_char) (code_simp+, simp)
  with RulePath_covers_calls [where documented = "''/me/{id}/x''" and path = "''/me/42/x''"]
  show ?thesis by blast
qed

section \<open>What a merge holds\<close>

lemma add_operation_methods:
  "op_method ` set (add_operation by_path (q, o') p) =
     op_method ` set (by_path p) \<union> (if p = q then {op_method o'} else {})"
  by (auto simp: add_operation_def list_ex_iff intro: rev_image_eqI)

lemma merge_methods:
  "op_method ` set (foldl add_operation by_path es p) =
     op_method ` set (by_path p) \<union> {op_method o' | o'. (p, o') \<in> set es}"
proof (induction es arbitrary: by_path)
  case (Cons e es)
  obtain q o' where e: "e = (q, o')" by (cases e)
  show ?case
    unfolding e foldl_Cons Cons.IH add_operation_methods by auto
qed simp

lemma merge_from:
  "set (foldl add_operation by_path es p) \<subseteq> set (by_path p) \<union> {o'. (p, o') \<in> set es}"
proof (induction es arbitrary: by_path)
  case (Cons e es)
  obtain q o' where e: "e = (q, o')" by (cases e)
  have "set (add_operation by_path e p) \<subseteq> set (by_path p) \<union> (if p = q then {o'} else {})"
    by (auto simp: e add_operation_def)
  with Cons.IH [of "add_operation by_path e"] e show ?case
    by (auto split: if_splits)
qed simp

lemma merge_distinct:
  "distinct (map op_method (by_path p)) \<Longrightarrow> distinct (map op_method (foldl add_operation by_path es p))"
proof (induction es arbitrary: by_path)
  case (Cons e es)
  have "distinct (map op_method (add_operation by_path e p))"
    using Cons.prems by (cases e) (auto simp: add_operation_def list_ex_iff)
  with Cons.IH show ?case by simp
qed simp

lemma entries_of_iff:
  "(p, o') \<in> set (entries_of batches) \<longleftrightarrow>
     (\<exists>batch \<in> set batches. \<exists>r \<in> set batch. rt_path r = p \<and> o' \<in> set (rt_operations r))"
  by (auto simp: entries_of_def)

lemma merge_route:
  assumes "r \<in> set (merge batches)"
  shows "rt_operations r = sort_key op_method (foldl add_operation (\<lambda>_. []) (entries_of batches) (rt_path r))"
  using assms by (auto simp: merge_def Let_def)

lemma merge_paths: "map rt_path (merge batches) = sort (remdups (map fst (entries_of batches)))"
  by (simp add: merge_def Let_def comp_def)

text \<open>
  Merging the branches gives one ordered catalogue: every path once, in increasing order,
  every method of a path once, in increasing order, and exactly the operations, by path and
  method, that some branch documents.
\<close>

lemma merge_one_ordered_catalogue:
  "sorted_wrt (<) (map rt_path (merge batches)) \<and>
   list_all (\<lambda>r. sorted_wrt (<) (map op_method (rt_operations r))) (merge batches) \<and>
   (\<forall>p m. (\<exists>r. r \<in> set (merge batches) \<and> rt_path r = p \<and> m \<in> op_method ` set (rt_operations r)) \<longleftrightarrow>
          (\<exists>r. r \<in> set (concat batches) \<and> rt_path r = p \<and> m \<in> op_method ` set (rt_operations r)))"
proof (intro conjI allI)
  show "sorted_wrt (<) (map rt_path (merge batches))"
    by (simp add: merge_paths strict_sorted_iff)
  have "sorted_wrt (<) (map op_method (rt_operations r))" if r: "r \<in> set (merge batches)" for r
  proof -
    have "distinct (map op_method (foldl add_operation (\<lambda>_. []) (entries_of batches) (rt_path r)))"
      by (rule merge_distinct) simp
    then show ?thesis
      by (simp add: merge_route [OF r] strict_sorted_iff distinct_map)
  qed
  then show "list_all (\<lambda>r. sorted_wrt (<) (map op_method (rt_operations r))) (merge batches)"
    by (simp add: list_all_iff)
next
  fix p m
  let ?es = "entries_of batches" and ?by = "foldl add_operation (\<lambda>_. []) (entries_of batches)"
  have "set (merge batches) =
      (\<lambda>q. \<lparr>rt_path = q, rt_operations = sort_key op_method (?by q)\<rparr>) ` fst ` set ?es"
    by (simp add: merge_def Let_def)
  then have "(\<exists>r. r \<in> set (merge batches) \<and> rt_path r = p \<and> m \<in> op_method ` set (rt_operations r)) \<longleftrightarrow>
      p \<in> fst ` set ?es \<and> m \<in> op_method ` set (?by p)"
    by (simp only: bex_simps(7) Bex_def [symmetric]) (simp add: image_iff, blast)
  also have "\<dots> \<longleftrightarrow> (\<exists>o'. (p, o') \<in> set ?es \<and> m = op_method o')"
    by (force simp: merge_methods)
  also have "\<dots> \<longleftrightarrow> (\<exists>r. r \<in> set (concat batches) \<and> rt_path r = p \<and> m \<in> op_method ` set (rt_operations r))"
    by (auto simp: entries_of_iff)
  finally show "(\<exists>r. r \<in> set (merge batches) \<and> rt_path r = p \<and> m \<in> op_method ` set (rt_operations r)) \<longleftrightarrow>
      (\<exists>r. r \<in> set (concat batches) \<and> rt_path r = p \<and> m \<in> op_method ` set (rt_operations r))" .
qed

section \<open>Fetching\<close>

definition fetch_branch :: "decoders \<Rightarrow> 's source \<Rightarrow> string \<Rightarrow> ('s, err + route list) op" where
  "fetch_branch dec src branch s =
     (let (r, s') = src_schema src (schemaPath branch) s
      in (case r of
            Inl e \<Rightarrow> Inl (Wrap [e])
          | Inr document \<Rightarrow>
              (case parseSchema (de_schema dec document) of
                 Inl e \<Rightarrow> Inl (Wrap [e])
               | Inr routes \<Rightarrow> Inr routes), s'))"

text \<open>The first failure in the order of the branches, else every batch.\<close>

fun all_batches :: "(err + route list) list \<Rightarrow> err + route list list" where
  "all_batches [] = Inr []"
| "all_batches (Inl e # slots) = Inl e"
| "all_batches (Inr batch # slots) =
     (case all_batches slots of Inl e \<Rightarrow> Inl e | Inr batches \<Rightarrow> Inr (batch # batches))"

definition Fetch :: "'s scheduler \<Rightarrow> decoders \<Rightarrow> 's source \<Rightarrow> time \<Rightarrow> ('s, err + snapshot) op" where
  "Fetch sched dec src now s =
     (let (index, s1) = src_index src s in
      case index of
        Inl e \<Rightarrow> (Inl (Wrap [e]), s1)
      | Inr raw \<Rightarrow>
          (case parseIndex (de_index dec raw) of
             Inl e \<Rightarrow> (Inl e, s1)
           | Inr branches \<Rightarrow>
               (let n = length branches;
                    (slots, s2) = run_pool (\<lambda>i. fetch_branch dec src (branches ! i)) (sched s1 n)
                                    (replicate n (Inr [])) s1
                in (case all_batches slots of
                      Inl e \<Rightarrow> Inl e
                    | Inr batches \<Rightarrow>
                        Inr \<lparr>sn_routes = merge batches, sn_branches = branches, sn_taken = now,
                             sn_live = True\<rparr>, s2))))"

lemma all_batches_iff: "all_batches slots = Inr batches \<longleftrightarrow> slots = map Inr batches"
proof
  have "all_batches (map Inr batches) = Inr batches" for batches by (induction batches) simp_all
  then show "slots = map Inr batches \<Longrightarrow> all_batches slots = Inr batches" by simp
  show "all_batches slots = Inr batches \<Longrightarrow> slots = map Inr batches"
    by (induction slots arbitrary: batches rule: all_batches.induct) (auto split: sum.splits)
qed

text \<open>A source whose answers depend on the document alone.\<close>

definition answers :: "'s source \<Rightarrow> (string \<Rightarrow> err + string) \<Rightarrow> bool" where
  "answers src documents \<longleftrightarrow> (\<forall>path s. fst (src_schema src path s) = documents path)"

definition branch_routes ::
  "decoders \<Rightarrow> (string \<Rightarrow> err + string) \<Rightarrow> string \<Rightarrow> route list option" where
  "branch_routes dec documents branch =
     (case documents (schemaPath branch) of
        Inl _ \<Rightarrow> None
      | Inr document \<Rightarrow> map_option schema_routes (de_schema dec document))"

definition branch_answer :: "decoders \<Rightarrow> (string \<Rightarrow> err + string) \<Rightarrow> string \<Rightarrow> err + route list" where
  "branch_answer dec documents branch =
     (case documents (schemaPath branch) of
        Inl e \<Rightarrow> Inl (Wrap [e])
      | Inr document \<Rightarrow>
          (case parseSchema (de_schema dec document) of Inl e \<Rightarrow> Inl (Wrap [e]) | Inr routes \<Rightarrow> Inr routes))"

lemma fetch_branch_answer:
  "answers src documents \<Longrightarrow> fst (fetch_branch dec src b s) = branch_answer dec documents b"
  by (simp add: fetch_branch_def answers_def branch_answer_def Let_def split_beta)

lemma branch_answer_routes:
  "branch_answer dec documents b = Inr routes \<longleftrightarrow> branch_routes dec documents b = Some routes"
  by (auto simp: branch_answer_def branch_routes_def parseSchema_def split: sum.splits option.splits)

lemma map_Inr_iff: "map f xs = map Inr ys \<longleftrightarrow> list_all2 (\<lambda>x y. f x = Inr y) xs ys"
  by (induction xs arbitrary: ys) (auto simp: list_all2_Cons1 map_eq_Cons_conv Cons_eq_map_conv)

text \<open>
  C28: A fetched catalogue is all of the API or none of it. Over a source that answers by
  document, and whatever the order in which the workers read the branches, a catalogue comes out
  exactly when the index names usable branches and the schema of every one of them is read; it
  then lists those branches and merges the routes of each.
\<close>

theorem Fetch_all_or_nothing:
  assumes "fair_schedule sched" "answers src documents"
  shows "fst (Fetch sched dec src now s) = Inr snap \<longleftrightarrow>
           (\<exists>raw branches batches. fst (src_index src s) = Inr raw \<and>
              parseIndex (de_index dec raw) = Inr branches \<and>
              list_all2 (\<lambda>b batch. branch_routes dec documents b = Some batch) branches batches \<and>
              snap = \<lparr>sn_routes = merge batches, sn_branches = branches, sn_taken = now, sn_live = True\<rparr>)"
proof -
  let ?s1 = "snd (src_index src s)"
  have pool: "fst (run_pool (\<lambda>i. fetch_branch dec src (bs ! i)) (sched ?s1 (length bs))
      (replicate (length bs) (Inr [])) ?s1) = map (branch_answer dec documents) bs" for bs
  proof -
    have "fst (run_pool (\<lambda>i. fetch_branch dec src (bs ! i)) (sched ?s1 (length bs))
        (replicate (length bs) (Inr [])) ?s1) =
      map (\<lambda>i. branch_answer dec documents (bs ! i)) [0 ..< length bs]"
      using assms(1) fetch_branch_answer [OF assms(2)]
      by (intro run_pool_answers) (auto simp: fair_schedule_def)
    also have "\<dots> = map (branch_answer dec documents) bs"
      by (intro nth_equalityI) simp_all
    finally show ?thesis .
  qed
  have slots: "all_batches (map (branch_answer dec documents) bs) = Inr batches \<longleftrightarrow>
      list_all2 (\<lambda>b batch. branch_routes dec documents b = Some batch) bs batches" for bs batches
    by (simp add: all_batches_iff map_Inr_iff branch_answer_routes)
  show ?thesis
    by (auto simp: Fetch_def Let_def split_beta pool slots [symmetric]
        split: sum.splits)
qed

theorem Fetch_all_or_nothing_witness:
  "let dec = \<lparr>de_index = (\<lambda>_. Some [''/me'', ''not a branch'', ''/vps'']),
              de_schema = (\<lambda>doc. Some [(doc, [\<lparr>so_method = ''GET'', so_description = [], so_status = []\<rparr>])])\<rparr>;
       src = \<lparr>src_index = (\<lambda>u. (Inr ''index'', u)), src_schema = (\<lambda>path u. (Inr path, u))\<rparr> :: unit source
   in \<exists>snap. fst (Fetch (\<lambda>_ n. [0 ..< n]) dec src 5 ()) = Inr snap \<and> sn_branches snap = [''/me'', ''/vps'']"
proof -
  define dec where "dec = \<lparr>de_index = (\<lambda>_ :: string. Some [''/me'', ''not a branch'', ''/vps'']),
              de_schema = (\<lambda>doc. Some [(doc, [\<lparr>so_method = ''GET'', so_description = [], so_status = []\<rparr>])])\<rparr>"
  define src :: "unit source" where
    "src = \<lparr>src_index = (\<lambda>u. (Inr ''index'', u)), src_schema = (\<lambda>path u. (Inr path, u))\<rparr>"
  have fair: "fair_schedule (\<lambda>(_ :: unit) n. [0 ..< n])" by (auto simp: fair_schedule_def)
  have answers: "answers src Inr" by (simp add: answers_def src_def)
  have index: "fst (src_index src ()) = Inr ''index''" by (simp add: src_def)
  have branches: "parseIndex (Some [''/me'', ''not a branch'', ''/vps'']) = Inr [''/me'', ''/vps'']"
    by code_simp
  have parsed: "parseIndex (de_index dec ''index'') = Inr [''/me'', ''/vps'']"
    using branches by (simp add: dec_def)
  obtain batches where "list_all2 (\<lambda>b batch. branch_routes dec Inr b = Some batch) [''/me'', ''/vps''] batches"
    by (auto simp: branch_routes_def dec_def list_all2_Cons1)
  with Fetch_all_or_nothing [OF fair answers, of dec 5 "()"] index parsed
  have "\<exists>snap. fst (Fetch (\<lambda>_ n. [0 ..< n]) dec src 5 ()) = Inr snap \<and> sn_branches snap = [''/me'', ''/vps'']"
    by fastforce
  then show ?thesis by (simp add: Let_def dec_def src_def)
qed

end
