(* ===== verification/Http_Reply.thy ===== *)
theory Http_Reply
  imports Public_Ip Catalog
begin

text \<open>
  What the handlers of \<open>internal/httpapi\<close> share: the server they are methods of, what they answer
  (a refusal with its code, or a status and a payload), the readings of an error every file uses,
  and \<open>list\<close>, which accepts a partial listing. The wording of a refusal and the log lines are left
  out, the codes are kept. The locale \<open>http_server\<close> joins the two interfaces a handler calls; the
  handlers' lemmas are proved in it, and it is interpreted on the server the program builds.
\<close>

section \<open>The server\<close>

record 's server =
  sv_provider :: "'s provider"
  sv_resolver :: "'s resolver"
  sv_catalog :: "'s \<Rightarrow> snapshot"
  sv_token :: string
  sv_csrf :: string
  sv_endpoint :: string
  sv_version :: string
  sv_management_key_url :: string
  sv_address_key_url :: string
  sv_secure_cookie :: bool

text \<open>A refusal carries its status, its code and, for a list of addresses, the entry at fault.\<close>

datatype 'a response =
    Refused (refusal_status: nat) (refusal_code: string) (refusal_entry: string)
  | Answered nat 'a

fun response_status :: "'a response \<Rightarrow> nat" where
  "response_status (Refused n _ _) = n"
| "response_status (Answered n _) = n"

section \<open>Codes\<close>

definition codePermissionDenied :: string where "codePermissionDenied = ''permission-denied''"
definition codeAPIFailure :: string where "codeAPIFailure = ''api-failure''"
definition codeSelfRevocation :: string where "codeSelfRevocation = ''self-revocation''"
definition codeIdentityUnknown :: string where "codeIdentityUnknown = ''identity-unknown''"
definition codeBadIdentifier :: string where "codeBadIdentifier = ''bad-identifier''"
definition codeMissingToken :: string where "codeMissingToken = ''missing-token''"
definition codeAlreadyRevoked :: string where "codeAlreadyRevoked = ''already-revoked''"
definition codeApplicationInUse :: string where "codeApplicationInUse = ''application-in-use''"
definition codeApplicationGone :: string where "codeApplicationGone = ''application-gone''"
definition codeCredentialUnusable :: string where "codeCredentialUnusable = ''credential-unusable''"

lemmas code_defs = codePermissionDenied_def codeAPIFailure_def codeSelfRevocation_def
  codeIdentityUnknown_def codeBadIdentifier_def codeMissingToken_def codeAlreadyRevoked_def
  codeApplicationInUse_def codeApplicationGone_def codeCredentialUnusable_def

record offer =
  of_allowed :: bool
  of_reason :: string

definition offered :: offer where "offered = \<lparr>of_allowed = True, of_reason = []\<rparr>"

definition withheld :: "string \<Rightarrow> offer" where
  "withheld reason = \<lparr>of_allowed = False, of_reason = reason\<rparr>"

lemma offer_simps [simp]:
  "of_allowed offered" "\<not> of_allowed (withheld r)" "of_reason (withheld r) = r"
  by (simp_all add: offered_def withheld_def)

definition reasonSelf :: string where "reasonSelf = ''self''"
definition reasonMissingRule :: string where "reasonMissingRule = ''missing-rule''"

section \<open>Reading an error\<close>

text \<open>\<open>errors.Is\<close> on an error that may be nil.\<close>

definition is_err :: "err option \<Rightarrow> sentinel \<Rightarrow> bool" where
  "is_err e t = (case e of None \<Rightarrow> False | Some e \<Rightarrow> errors_is e t)"

lemma is_err_simps [simp]: "\<not> is_err None t" "is_err (Some e) t = errors_is e t"
  by (simp_all add: is_err_def)

definition fail_with :: "err option \<Rightarrow> 'a response" where
  "fail_with e =
     (if is_err e ErrPermissionDenied then Refused 403 codePermissionDenied []
      else Refused 502 codeAPIFailure [])"

definition failInventory :: "err option \<Rightarrow> err option \<Rightarrow> 'a response" where
  "failInventory listing identity =
     (if is_err listing ErrPermissionDenied \<and> is_err identity ErrPermissionDenied
      then Refused 403 codeCredentialUnusable []
      else fail_with listing)"

section \<open>The credential in use and the listing\<close>

definition left_error :: "err + 'a \<Rightarrow> err option" where
  "left_error r = (case r of Inl e \<Rightarrow> Some e | Inr _ \<Rightarrow> None)"

definition right_value :: "err + 'a \<Rightarrow> 'a option" where
  "right_value r = (case r of Inl _ \<Rightarrow> None | Inr x \<Rightarrow> Some x)"

lemma left_right_simps [simp]:
  "left_error (Inl e) = Some e" "left_error (Inr x) = None"
  "right_value (Inl e) = None" "right_value (Inr x) = Some x"
  by (simp_all add: left_error_def right_value_def)

lemma right_value_Some: "right_value r = Some x \<longleftrightarrow> r = Inr x"
  by (cases r) simp_all

text \<open>Ranging over a nil slice runs no turn.\<close>

definition slice :: "'a list option \<Rightarrow> 'a list" where
  "slice xs = (case xs of None \<Rightarrow> [] | Some xs \<Rightarrow> xs)"

lemma slice_simps [simp]: "slice None = []" "slice (Some xs) = xs"
  by (simp_all add: slice_def)

definition list_result ::
  "credential list option \<times> err option \<Rightarrow> credential list option \<times> int \<times> err option" where
  "list_result r =
     (case r of (credentials, err) \<Rightarrow>
        (case (err, credentials) of
           (Some e, Some cs) \<Rightarrow>
             (case as_incomplete e of
                Some (unreadable, _) \<Rightarrow> (Some cs, unreadable, None)
              | None \<Rightarrow> (Some cs, 0, Some e))
         | _ \<Rightarrow> (credentials, 0, err)))"

definition list_credentials ::
  "'s server \<Rightarrow> ('s, credential list option \<times> int \<times> err option) op" where
  "list_credentials srv s =
     (let (r, s1) = pr_list (sv_provider srv) [] s in (list_result r, s1))"

lemma list_result_ok:
  "list_result (cs, e) = (cs', n, None) \<Longrightarrow> cs' = cs \<and> (e = None \<or> (\<exists>x. e = Some x \<and> as_incomplete x \<noteq> None))"
  by (auto simp: list_result_def split: option.splits)

section \<open>What a handler rests on\<close>

locale http_server =
  provider_contract only "sv_provider srv" identity + address_resolver only "sv_resolver srv"
  for only :: "effect set \<Rightarrow> 's \<Rightarrow> 's \<Rightarrow> bool" and srv :: "'s server"
    and identity :: "'s \<Rightarrow> int option"
begin

lemma list_credentials_frame: "only {} s (snd (list_credentials srv s))"
  by (simp add: list_credentials_def Let_def split_beta list_frame)

lemmas handler_reads = list_credentials_frame reads lookup_frame

end

end
