(* ===== verification/Http_Revoke.thy ===== *)
theory Http_Revoke
  imports Http_Reply
begin

text \<open>
  \<open>internal/httpapi/revoke.go\<close> and \<open>sweep.go\<close>: ending one credential, ending the credential in
  use, and ending every expired or refused one. The lemmas of the locale bound what each handler
  may do to the account and account for every key of a sweep.
\<close>

section \<open>One credential\<close>

definition failRevocation :: "err \<Rightarrow> 'a response" where
  "failRevocation e =
     (if errors_is e ErrNotFound then Refused 404 codeAlreadyRevoked []
      else if errors_is e ErrIdentityUnavailable then Refused 502 codeIdentityUnknown []
      else if errors_is e ErrSelfRevocation then Refused 409 codeSelfRevocation []
      else if errors_is e ErrPermissionDenied then Refused 403 codePermissionDenied []
      else Refused 502 codeAPIFailure [])"

definition revoke :: "'s server \<Rightarrow> string \<Rightarrow> ('s, unit response) op" where
  "revoke srv path_id s =
     (case parse_int64 path_id of
        None \<Rightarrow> (Refused 400 codeBadIdentifier [], s)
      | Some i \<Rightarrow>
          (let (e, s1) = pr_revoke (sv_provider srv) i s in
           (case e of Some e \<Rightarrow> failRevocation e | None \<Rightarrow> Answered 204 (), s1)))"

definition retire :: "'s server \<Rightarrow> ('s, retirement response) op" where
  "retire srv s =
     (let (r, s1) = pr_retire (sv_provider srv) s in
      (case r of Inl e \<Rightarrow> failRevocation e | Inr retired \<Rightarrow> Answered 200 retired, s1))"

definition revocationOffer :: "'s server \<Rightarrow> credential option \<Rightarrow> credential \<Rightarrow> offer" where
  "revocationOffer srv current target =
     (case current of
        None \<Rightarrow> offered
      | Some own \<Rightarrow>
          if cred_id own = cred_id target then withheld reasonSelf
          else if \<not> pr_revocable (sv_provider srv) own target then withheld reasonMissingRule
          else offered)"

section \<open>The sweep\<close>

definition inactive :: "status \<Rightarrow> bool" where
  "inactive st \<longleftrightarrow> st = StatusExpired \<or> st = StatusRefused"

definition sweepCode :: "string \<Rightarrow> string" where
  "sweepCode reason = (if reason = reasonSelf then codeSelfRevocation else codePermissionDenied)"

definition revocationCode :: "err \<Rightarrow> string" where
  "revocationCode e =
     (if errors_is e ErrIdentityUnavailable then codeIdentityUnknown
      else if errors_is e ErrSelfRevocation then codeSelfRevocation
      else if errors_is e ErrPermissionDenied then codePermissionDenied
      else codeAPIFailure)"

definition revokeOne :: "'s server \<Rightarrow> credential option \<Rightarrow> int \<Rightarrow> ('s, err option) op" where
  "revokeOne srv current i =
     (case current of
        None \<Rightarrow> pr_revoke (sv_provider srv) i
      | Some own \<Rightarrow> pr_revoke_against (sv_provider srv) own i)"

record sweep =
  sw_revoked :: "int list"
  sw_failed :: "(int \<times> string) list"

text \<open>One turn of the loop: nothing, a failure with its code, or a key revoked.\<close>

datatype turn = Passed | Failing int string | Ended int

definition sweep_turn :: "'s server \<Rightarrow> credential option \<Rightarrow> credential \<Rightarrow> ('s, turn) op" where
  "sweep_turn srv current target s =
     (if \<not> inactive (cred_status target) then (Passed, s)
      else (let offer = revocationOffer srv current target in
        if \<not> of_allowed offer
        then (Failing (cred_id target) (sweepCode (of_reason offer)), s)
        else (let (e, s1) = revokeOne srv current (cred_id target) s in
          (case e of
             None \<Rightarrow> Ended (cred_id target)
           | Some e \<Rightarrow>
               if errors_is e ErrNotFound then Ended (cred_id target)
               else Failing (cred_id target) (revocationCode e), s1))))"

fun report :: "turn list \<Rightarrow> sweep" where
  "report [] = \<lparr>sw_revoked = [], sw_failed = []\<rparr>"
| "report (Passed # ts) = report ts"
| "report (Failing i c # ts) = (report ts)\<lparr>sw_failed := (i, c) # sw_failed (report ts)\<rparr>"
| "report (Ended i # ts) = (report ts)\<lparr>sw_revoked := i # sw_revoked (report ts)\<rparr>"

definition revokeInactive :: "'s server \<Rightarrow> ('s, sweep response) op" where
  "revokeInactive srv s =
     (let (own, s1) = pr_current (sv_provider srv) s;
          current = right_value own;
          ((credentials, _, err), s2) = list_credentials srv s1
      in case err of
           Some e \<Rightarrow> (failInventory (Some e) (left_error own), s2)
         | None \<Rightarrow>
             (let (turns, s3) = for_each (sweep_turn srv current) (slice credentials) s2
              in (Answered 200 (report turns), s3)))"

section \<open>The account of a sweep\<close>

lemma report_revoked: "sw_revoked (report ts) = concat (map (\<lambda>t. case t of Ended i \<Rightarrow> [i] | _ \<Rightarrow> []) ts)"
  by (induction ts rule: report.induct) simp_all

lemma report_failed:
  "sw_failed (report ts) = concat (map (\<lambda>t. case t of Failing i c \<Rightarrow> [(i, c)] | _ \<Rightarrow> []) ts)"
  by (induction ts rule: report.induct) simp_all

definition turn_id :: "turn \<Rightarrow> int option" where
  "turn_id t = (case t of Passed \<Rightarrow> None | Failing i _ \<Rightarrow> Some i | Ended i \<Rightarrow> Some i)"

lemma sweep_turn_id:
  "turn_id (fst (sweep_turn srv current c s)) =
     (if inactive (cred_status c) then Some (cred_id c) else None)"
  by (auto simp: sweep_turn_def turn_id_def Let_def split_beta split: option.split)

definition opt_list :: "'a option \<Rightarrow> 'a list" where
  "opt_list x = (case x of None \<Rightarrow> [] | Some x \<Rightarrow> [x])"

lemma report_mset:
  "mset (sw_revoked (report ts)) + mset (map fst (sw_failed (report ts))) =
     mset (concat (map (\<lambda>t. opt_list (turn_id t)) ts))"
  by (induction ts rule: report.induct) (simp_all add: turn_id_def opt_list_def)

lemma sweep_turns_ids:
  "concat (map (\<lambda>t. opt_list (turn_id t)) (fst (for_each (sweep_turn srv current) cs s))) =
     map cred_id (filter (\<lambda>c. inactive (cred_status c)) cs)"
  by (induction cs arbitrary: s) (simp_all add: Let_def split_beta sweep_turn_id opt_list_def)

text \<open>Every inactive key of the list is reported once, as revoked or as failed.\<close>

lemma sweep_reports_all:
  "mset (sw_revoked (report (fst (for_each (sweep_turn srv current) cs s)))) +
   mset (map fst (sw_failed (report (fst (for_each (sweep_turn srv current) cs s))))) =
   mset (map cred_id (filter (\<lambda>c. inactive (cred_status c)) cs))"
  by (simp only: report_mset sweep_turns_ids)

section \<open>What the handlers may do\<close>

definition swept_targets :: "'s server \<Rightarrow> credential option \<Rightarrow> credential list \<Rightarrow> effect set" where
  "swept_targets srv current cs =
     {RevokeKey (cred_id c) | c. c \<in> set cs \<and> inactive (cred_status c) \<and>
        of_allowed (revocationOffer srv current c)}"

context http_server
begin

lemma revoke_only:
  "only {RevokeKey i | i. parse_int64 path_id = Some i \<and> identity s \<noteq> Some i \<and> identity s \<noteq> None}
     s (snd (revoke srv path_id s))"
proof (cases "parse_int64 path_id")
  case None
  then show ?thesis by (simp add: revoke_def only_refl)
next
  case (Some i)
  show ?thesis
  proof (cases "identity s = None \<or> identity s = Some i")
    case True
    then have "only {} s (snd (pr_revoke (sv_provider srv) i s))"
      using revoke_self revoke_unidentified by blast
    then show ?thesis
      using Some by (simp add: revoke_def Let_def split_beta only_none)
  next
    case False
    then have "{RevokeKey i} \<subseteq>
        {RevokeKey i | i. parse_int64 path_id = Some i \<and> identity s \<noteq> Some i \<and> identity s \<noteq> None}"
      using Some by auto
    with only_mono [OF revoke_frame] Some show ?thesis
      by (simp add: revoke_def Let_def split_beta)
  qed
qed

lemma revoke_self_refused:
  assumes "parse_int64 path_id = Some i" "identity s = Some i"
  shows "fst (revoke srv path_id s) = Refused 409 codeSelfRevocation []"
  using assms revoke_self [of s i]
  by (simp add: revoke_def Let_def split_beta failRevocation_def)

lemma retire_only:
  "only ({RevokeKey i | i. identity s = Some i} \<union> {ExpireKeyInUse}) s (snd (retire srv s))"
  using retire_frame [of s] by (simp add: retire_def Let_def split_beta)

lemma revokeOne_only: "only {RevokeKey i} s (snd (revokeOne srv current i s))"
  by (simp add: revokeOne_def revoke_frame revoke_against_frame split: option.split)

lemma sweep_turn_only:
  assumes "c \<in> set cs"
  shows "only (swept_targets srv current cs) s (snd (sweep_turn srv current c s))"
proof (cases "inactive (cred_status c) \<and> of_allowed (revocationOffer srv current c)")
  case True
  then have "{RevokeKey (cred_id c)} \<subseteq> swept_targets srv current cs"
    using assms by (auto simp: swept_targets_def)
  with only_mono [OF revokeOne_only] True show ?thesis
    by (simp add: sweep_turn_def Let_def split_beta)
next
  case False
  then show ?thesis by (auto simp: sweep_turn_def Let_def only_refl)
qed

lemma revokeInactive_only:
  assumes "pr_current (sv_provider srv) s = (own, s1)"
    and "list_credentials srv s1 = ((credentials, n, e), s2)"
  shows "only (swept_targets srv (right_value own) (slice credentials)) s (snd (revokeInactive srv s))"
proof -
  let ?E = "swept_targets srv (right_value own) (slice credentials)"
  have "only {} s s1" using current_frame [of s] assms(1) by simp
  moreover have "only {} s1 s2" using list_credentials_frame [of s1] assms(2) by simp
  ultimately have reads: "only {} s s2" by (rule only_trans)
  have "only ?E s2 (snd (for_each (sweep_turn srv (right_value own)) (slice credentials) s2))"
    by (rule only_for_each) (rule sweep_turn_only)
  from only_none [OF reads] only_after_read [OF reads this] show ?thesis
    by (simp add: revokeInactive_def assms Let_def split_beta split: option.split)
qed

text \<open>A key that is offered to a sweep is never the one in use, as far as the sweep could tell.\<close>

lemma swept_not_own:
  "RevokeKey i \<in> swept_targets srv (Some own) cs \<Longrightarrow>
   i \<noteq> cred_id own \<and> permits own ''DELETE'' (CredentialPath i)"
  by (auto simp: swept_targets_def revocationOffer_def revocable_rules split: if_splits)

lemma swept_spares_identity:
  assumes "pr_current (sv_provider srv) s = (own, s1)"
    and "RevokeKey i \<in> swept_targets srv (right_value own) cs"
  shows "identity s \<noteq> Some i"
proof (cases own)
  case (Inl e)
  then have "identity s = None" using current_unidentified [of s e] assms(1) by simp
  then show ?thesis by simp
next
  case (Inr c)
  then have "identity s = Some (cred_id c)" using current_identity [of s c] assms(1) by simp
  with Inr assms(2) swept_not_own [of i c cs] show ?thesis by simp
qed

lemma swept_listed:
  "RevokeKey i \<in> swept_targets srv current cs \<Longrightarrow>
   \<exists>c \<in> set cs. cred_id c = i \<and> inactive (cred_status c)"
  by (auto simp: swept_targets_def)

text \<open>With the credential in use unknown, a single revocation still refuses it.\<close>

lemma revokeOne_self:
  "identity s = Some i \<Longrightarrow> only {} s (snd (revokeOne srv None i s))"
  using revoke_self by (simp add: revokeOne_def)

end

end
