(* ===== verification/Http_Applications.thy ===== *)
theory Http_Applications
  imports Http_Revoke
begin

text \<open>
  \<open>internal/httpapi/applications.go\<close>: listing the applications with the keys they hold, deleting
  one, and deleting every application that holds none. The lemmas bound what each handler may
  delete and account for every application of the bulk deletion.
\<close>

section \<open>Listing\<close>

record application_use =
  au_application :: application
  au_credentials :: nat
  au_delete :: offer

record applications_answer =
  aa_listed :: bool
  aa_reason :: string
  aa_applications :: "application_use list"
  aa_unreadable :: int

definition reasonApplicationInUse :: string where "reasonApplicationInUse = ''in-use''"

definition applicationListingPath :: string where
  "applicationListingPath = ''/me/api/application''"

definition deletionOffer :: "'s server \<Rightarrow> credential option \<Rightarrow> int \<Rightarrow> nat \<Rightarrow> offer" where
  "deletionOffer srv current i credentials =
     (if credentials > 0 then withheld reasonApplicationInUse
      else case current of
          None \<Rightarrow> offered
        | Some own \<Rightarrow>
            if \<not> pr_deletable_application (sv_provider srv) own i then withheld reasonMissingRule
            else offered)"

text \<open>The map \<open>used\<close>: how many keys of the list point at each application.\<close>

fun count_uses :: "credential list \<Rightarrow> (int \<Rightarrow> nat) \<Rightarrow> int \<Rightarrow> nat" where
  "count_uses [] used = used"
| "count_uses (c # cs) used =
     (let i = app_id (cred_application c) in count_uses cs (used(i := used i + 1)))"

definition used_by :: "credential list \<Rightarrow> int \<Rightarrow> nat" where
  "used_by cs = count_uses cs (\<lambda>_. 0)"

definition applications :: "'s server \<Rightarrow> ('s, applications_answer response) op" where
  "applications srv s =
     (let (own, s1) = pr_current (sv_provider srv) s in
      if (case own of Inr c \<Rightarrow> \<not> permits c ''GET'' applicationListingPath | Inl _ \<Rightarrow> False)
      then (Answered 200 \<lparr>aa_listed = False, aa_reason = reasonMissingRule, aa_applications = [],
                          aa_unreadable = 0\<rparr>, s1)
      else (let ((apps, err), s2) = pr_applications (sv_provider srv) s1 in
        case apps of
          None \<Rightarrow> (fail_with err, s2)
        | Some as \<Rightarrow>
            (let unreadable = (case err of
                   None \<Rightarrow> 0
                 | Some e \<Rightarrow> (case as_incomplete e of None \<Rightarrow> 0 | Some (n, _) \<Rightarrow> n));
                 ((credentials, _, listErr), s3) = list_credentials srv s2;
                 used = (if listErr = None then used_by (slice credentials) else (\<lambda>_. 0));
                 (own', s4) = pr_current (sv_provider srv) s3;
                 current = right_value own'
             in (Answered 200 \<lparr>aa_listed = True, aa_reason = [],
                   aa_applications = map (\<lambda>a.
                     \<lparr>au_application = a, au_credentials = used (app_id a),
                      au_delete = deletionOffer srv current (app_id a) (used (app_id a))\<rparr>) as,
                   aa_unreadable = unreadable\<rparr>, s4))))"

section \<open>Deleting one\<close>

definition failApplicationDeletion :: "err \<Rightarrow> 'a response" where
  "failApplicationDeletion e =
     (if errors_is e ErrApplicationInUse then Refused 409 codeApplicationInUse []
      else if errors_is e ErrNotFound then Refused 404 codeApplicationGone []
      else if errors_is e ErrPermissionDenied then Refused 403 codePermissionDenied []
      else Refused 502 codeAPIFailure [])"

definition deleteApplication :: "'s server \<Rightarrow> string \<Rightarrow> ('s, unit response) op" where
  "deleteApplication srv path_id s =
     (case parse_int64 path_id of
        None \<Rightarrow> (Refused 400 codeBadIdentifier [], s)
      | Some i \<Rightarrow>
          (let (e, s1) = pr_delete_application (sv_provider srv) i s in
           (case e of Some e \<Rightarrow> failApplicationDeletion e | None \<Rightarrow> Answered 204 (), s1)))"

section \<open>Deleting those without a key\<close>

definition applicationErrorCode :: "err \<Rightarrow> string" where
  "applicationErrorCode e =
     (if errors_is e ErrApplicationInUse then codeApplicationInUse
      else if errors_is e ErrNotFound then codeApplicationGone
      else if errors_is e ErrPermissionDenied then codePermissionDenied
      else codeAPIFailure)"

definition keyless_turn ::
  "'s server \<Rightarrow> credential option \<Rightarrow> credential list \<Rightarrow> application \<Rightarrow> ('s, turn) op" where
  "keyless_turn srv current credentials a s =
     (if used_by credentials (app_id a) > 0 then (Passed, s)
      else if \<not> of_allowed (deletionOffer srv current (app_id a) 0)
      then (Failing (app_id a) codePermissionDenied, s)
      else (let (e, s1) = pr_delete_application_against (sv_provider srv) credentials (app_id a) s in
        (case e of
           Some e \<Rightarrow> Failing (app_id a) (applicationErrorCode e)
         | None \<Rightarrow> Ended (app_id a), s1)))"

text \<open>The two lists of \<open>keylessSweepResponse\<close> are those of a sweep: deleted, failed.\<close>

definition deleteKeylessApplications :: "'s server \<Rightarrow> ('s, sweep response) op" where
  "deleteKeylessApplications srv s =
     (let ((apps, err), s1) = pr_applications (sv_provider srv) s in
      case apps of
        None \<Rightarrow> (fail_with err, s1)
      | Some as \<Rightarrow>
          (let ((credentials, _, err), s2) = list_credentials srv s1 in
           case err of
             Some e \<Rightarrow> (fail_with (Some e), s2)
           | None \<Rightarrow>
               (let (own, s3) = pr_current (sv_provider srv) s2;
                    (turns, s4) = for_each (keyless_turn srv (right_value own) (slice credentials)) as s3
                in (Answered 200 (report turns), s4))))"

section \<open>Counting\<close>

lemma count_uses_eq:
  "count_uses cs used i = used i + length (filter (\<lambda>c. app_id (cred_application c) = i) cs)"
  by (induction cs arbitrary: used) (auto simp: Let_def)

lemma used_by_eq: "used_by cs i = length (filter (\<lambda>c. app_id (cred_application c) = i) cs)"
  by (simp add: used_by_def count_uses_eq)

lemma used_by_zero: "used_by cs i = 0 \<longleftrightarrow> (\<forall>c \<in> set cs. app_id (cred_application c) \<noteq> i)"
  by (auto simp: used_by_eq filter_empty_conv)

lemma keyless_turn_id:
  "turn_id (fst (keyless_turn srv current cs a s)) =
     (if used_by cs (app_id a) = 0 then Some (app_id a) else None)"
  by (simp add: keyless_turn_def turn_id_def Let_def split_beta split: option.split)

lemma keyless_turns_ids:
  "concat (map (\<lambda>t. opt_list (turn_id t)) (fst (for_each (keyless_turn srv current cs) as s))) =
     map app_id (filter (\<lambda>a. used_by cs (app_id a) = 0) as)"
  by (induction as arbitrary: s) (simp_all add: Let_def split_beta keyless_turn_id opt_list_def)

lemma keyless_reports_all:
  "mset (sw_revoked (report (fst (for_each (keyless_turn srv current cs) as s)))) +
   mset (map fst (sw_failed (report (fst (for_each (keyless_turn srv current cs) as s))))) =
   mset (map app_id (filter (\<lambda>a. used_by cs (app_id a) = 0) as))"
  by (simp only: report_mset keyless_turns_ids)

section \<open>What the handlers may do\<close>

definition keyless_targets ::
  "'s server \<Rightarrow> credential option \<Rightarrow> credential list \<Rightarrow> application list \<Rightarrow> effect set" where
  "keyless_targets srv current cs as =
     {DeleteApp (app_id a) | a. a \<in> set as \<and> used_by cs (app_id a) = 0 \<and>
        of_allowed (deletionOffer srv current (app_id a) 0)}"

context http_server
begin

lemma applications_only: "only {} s (snd (applications srv s))"
proof -
  note s1 = current_frame [of s]
  note s2 = only_trans [OF s1 applications_frame]
  note s3 = only_trans [OF s2 list_credentials_frame]
  note s4 = only_trans [OF s3 current_frame]
  show ?thesis
    using s1 s2 s4 by (simp add: applications_def Let_def split_beta split: option.split)
qed

lemma deleteApplication_only:
  "only {DeleteApp i | i. parse_int64 path_id = Some i} s (snd (deleteApplication srv path_id s))"
proof (cases "parse_int64 path_id")
  case None
  then show ?thesis by (simp add: deleteApplication_def only_refl)
next
  case (Some i)
  have "{DeleteApp i} \<subseteq> {DeleteApp i | i. parse_int64 path_id = Some i}" using Some by auto
  with only_mono [OF delete_frame] Some show ?thesis
    by (simp add: deleteApplication_def Let_def split_beta)
qed

lemma keyless_turn_only:
  assumes "a \<in> set as"
  shows "only (keyless_targets srv current cs as) s (snd (keyless_turn srv current cs a s))"
proof (cases "used_by cs (app_id a) = 0 \<and> of_allowed (deletionOffer srv current (app_id a) 0)")
  case True
  then have "{DeleteApp (app_id a)} \<subseteq> keyless_targets srv current cs as"
    using assms by (auto simp: keyless_targets_def)
  with only_mono [OF delete_against_frame] True show ?thesis
    by (simp add: keyless_turn_def Let_def split_beta)
next
  case False
  then show ?thesis by (auto simp: keyless_turn_def only_refl)
qed

lemma deleteKeyless_only:
  assumes "pr_applications (sv_provider srv) s = ((apps, e), s1)"
    and "list_credentials srv s1 = ((credentials, n, e'), s2)"
    and "pr_current (sv_provider srv) s2 = (own, s3)"
  shows "only (keyless_targets srv (right_value own) (slice credentials) (slice apps)) s
           (snd (deleteKeylessApplications srv s))"
proof -
  let ?E = "keyless_targets srv (right_value own) (slice credentials) (slice apps)"
  have s1: "only {} s s1" using applications_frame [of s] assms(1) by simp
  have s2: "only {} s s2"
    using list_credentials_frame [of s1] assms(2) only_trans [OF s1, of s2] by simp
  have s3: "only {} s s3"
    using current_frame [of s2] assms(3) only_trans [OF s2, of s3] by simp
  have "only ?E s3 (snd (for_each (keyless_turn srv (right_value own) (slice credentials)) (slice apps) s3))"
    by (rule only_for_each) (rule keyless_turn_only)
  from only_none [OF s1] only_none [OF s2] only_after_read [OF s3 this] show ?thesis
    by (cases apps) (simp_all add: deleteKeylessApplications_def assms Let_def split_beta split: option.split)
qed

lemma keyless_target_unused:
  "DeleteApp i \<in> keyless_targets srv current cs as \<Longrightarrow>
   (\<exists>a \<in> set as. app_id a = i) \<and> (\<forall>c \<in> set cs. app_id (cred_application c) \<noteq> i)"
  by (auto simp: keyless_targets_def used_by_zero)

end

end
