(* ===== verification/Http_Addresses.thy ===== *)
theory Http_Addresses
  imports Http_Revoke
begin

text \<open>
  \<open>internal/httpapi/addresses.go\<close> and \<open>address.go\<close>: reading a list of addresses, previewing it,
  writing it, and the address this process is seen from. A decoded body is the argument of the
  handlers, \<open>None\<close> where the JSON decoder refuses it. The lemmas say what a list that is read
  holds, and that the credential in use is never given a list that shuts this process out.
\<close>

section \<open>Reading a list\<close>

definition maxAddresses :: nat where "maxAddresses = 64"

definition reasonInactive :: string where "reasonInactive = ''inactive''"
definition reasonLookupOff :: string where "reasonLookupOff = ''lookup-off''"
definition codeBadAddress :: string where "codeBadAddress = ''bad-address''"
definition codeAnyAddressBlock :: string where "codeAnyAddressBlock = ''any-address-block''"
definition codeTooManyAddresses :: string where "codeTooManyAddresses = ''too-many-addresses''"
definition codeInactive :: string where "codeInactive = ''credential-inactive''"
definition codeSelfLookupOff :: string where "codeSelfLookupOff = ''self-lookup-off''"
definition codeSelfLockout :: string where "codeSelfLockout = ''self-lockout''"
definition codeLookupDisabled :: string where "codeLookupDisabled = ''lookup-disabled''"
definition codeLookupFailed :: string where "codeLookupFailed = ''lookup-failed''"

definition address_separator :: "char \<Rightarrow> bool" where
  "address_separator c \<longleftrightarrow>
     c = CHR '','' \<or> c = CHR '';'' \<or> c = CHR '' '' \<or> c = CHR 0x09 \<or> c = CHR 0x0A \<or> c = CHR 0x0D"

definition readAddress :: "string \<Rightarrow> prefix option" where
  "readAddress entry =
     (case parse_prefix entry of
        Some p \<Rightarrow> if is_4in6 (pfx_addr p) then None else Some (masked p)
      | None \<Rightarrow>
          (case parse_addr entry of
             None \<Rightarrow> None
           | Some a \<Rightarrow>
               if addr_zone a \<noteq> [] then None
               else Some (prefix_from (unmap a) (bit_len (unmap a)))))"

type_synonym refusal = "string \<times> string"

fun read_entries :: "string list \<Rightarrow> prefix list \<Rightarrow> refusal + prefix list" where
  "read_entries [] allowed = Inr allowed"
| "read_entries (entry # entries) allowed =
     (case readAddress entry of
        None \<Rightarrow> Inl (codeBadAddress, entry)
      | Some p \<Rightarrow>
          if pfx_bits p = 0 then Inl (codeAnyAddressBlock, entry)
          else read_entries entries (if p \<in> set allowed then allowed else allowed @ [p]))"

definition readAddresses :: "string list \<Rightarrow> refusal + prefix list" where
  "readAddresses sent =
     (let entries = concat (map (fields_func address_separator) sent) in
      if length entries > maxAddresses then Inl (codeTooManyAddresses, [])
      else read_entries entries [])"

section \<open>The handler\<close>

record addresses_answer =
  ad_addresses :: "string list"
  ad_seen_from :: string

definition failAddresses :: "err \<Rightarrow> 'a response" where
  "failAddresses e =
     (if errors_is e ErrIdentityUnavailable then Refused 502 codeIdentityUnknown []
      else if errors_is e ErrNotFound then Refused 404 codeAlreadyRevoked []
      else if errors_is e ErrPermissionDenied then Refused 403 codePermissionDenied []
      else Refused 502 codeAPIFailure [])"

text \<open>The check of a list meant for the credential in use: the address seen, or a refusal.\<close>

definition check_lockout ::
  "'s server \<Rightarrow> prefix list \<Rightarrow> ('s, addresses_answer response + string) op" where
  "check_lockout srv allowed s =
     (let (r, s1) = rs_address (sv_resolver srv) s in
      (case r of
         Inl e \<Rightarrow>
           if errors_is e ErrDisabled then Inl (Refused 409 codeSelfLookupOff [])
           else Inl (Refused 502 codeLookupFailed [])
       | Inr seenFrom \<Rightarrow>
           if \<not> list_ex (\<lambda>p. pfx_contains p seenFrom) allowed
           then Inl (Refused 409 codeSelfLockout (addr_string seenFrom))
           else Inr (addr_string seenFrom), s1))"

definition write_addresses ::
  "'s server \<Rightarrow> bool \<Rightarrow> int \<Rightarrow> prefix list \<Rightarrow> string \<Rightarrow> ('s, addresses_answer response) op" where
  "write_addresses srv apply target allowed seenFrom s =
     (let answer = Answered 200 \<lparr>ad_addresses = map prefix_string allowed, ad_seen_from = seenFrom\<rparr> in
      if \<not> apply then (answer, s)
      else (let (e, s1) = pr_set_addresses (sv_provider srv) target allowed s in
        (case e of Some e \<Rightarrow> failAddresses e | None \<Rightarrow> answer, s1)))"

definition change_addresses ::
  "'s server \<Rightarrow> bool \<Rightarrow> credential \<Rightarrow> credential \<Rightarrow> prefix list \<Rightarrow> ('s, addresses_answer response) op" where
  "change_addresses srv apply current target allowed s =
     (if cred_status target \<noteq> StatusValidated \<or> app_deleted (cred_application target)
      then (Refused 409 codeInactive [], s)
      else if cred_id target = cred_id current \<and> allowed \<noteq> []
      then (let (r, s1) = check_lockout srv allowed s in
        case r of
          Inl refused \<Rightarrow> (refused, s1)
        | Inr seenFrom \<Rightarrow> write_addresses srv apply (cred_id target) allowed seenFrom s1)
      else write_addresses srv apply (cred_id target) allowed [] s)"

definition addresses ::
  "'s server \<Rightarrow> string \<Rightarrow> string list option \<Rightarrow> bool \<Rightarrow> ('s, addresses_answer response) op" where
  "addresses srv path_id body apply s =
     (case parse_int64 path_id of
        None \<Rightarrow> (Refused 400 codeBadIdentifier [], s)
      | Some i \<Rightarrow>
        (case body of
           None \<Rightarrow> (Refused 400 codeBadAddress [], s)
         | Some sent \<Rightarrow>
           (case readAddresses sent of
              Inl (c, entry) \<Rightarrow> (Refused 400 c entry, s)
            | Inr allowed \<Rightarrow>
              (let (own, s1) = pr_current (sv_provider srv) s in
               case own of
                 Inl e \<Rightarrow> (failAddresses (Wrap [Sentinel ErrIdentityUnavailable, e]), s1)
               | Inr current \<Rightarrow>
                   if i \<noteq> cred_id current
                   then (let (r, s2) = pr_get (sv_provider srv) i s1 in
                     case r of
                       Inl e \<Rightarrow> (failAddresses e, s2)
                     | Inr target \<Rightarrow> change_addresses srv apply current target allowed s2)
                   else change_addresses srv apply current current allowed s1))))"

definition previewAddresses ::
  "'s server \<Rightarrow> string \<Rightarrow> string list option \<Rightarrow> ('s, addresses_answer response) op" where
  "previewAddresses srv path_id body = addresses srv path_id body False"

definition setAddresses ::
  "'s server \<Rightarrow> string \<Rightarrow> string list option \<Rightarrow> ('s, addresses_answer response) op" where
  "setAddresses srv path_id body = addresses srv path_id body True"

definition addressOffer :: "'s server \<Rightarrow> credential option \<Rightarrow> credential \<Rightarrow> offer" where
  "addressOffer srv current target =
     (if cred_status target \<noteq> StatusValidated \<or> app_deleted (cred_application target)
      then withheld reasonInactive
      else case current of
          None \<Rightarrow> offered
        | Some own \<Rightarrow>
            if \<not> pr_addresses_editable (sv_provider srv) own target then withheld reasonMissingRule
            else if cred_id own = cred_id target \<and> \<not> rs_enabled (sv_resolver srv)
            then withheld reasonLookupOff
            else offered)"

definition publicAddress :: "'s server \<Rightarrow> ('s, string response) op" where
  "publicAddress srv s =
     (let (r, s1) = rs_address (sv_resolver srv) s in
      (case r of
         Inl e \<Rightarrow>
           if errors_is e ErrDisabled then Refused 403 codeLookupDisabled []
           else Refused 502 codeLookupFailed []
       | Inr address \<Rightarrow> Answered 200 (addr_string address), s1))"

section \<open>What a list that is read holds\<close>

lemma single_host_stored:
  "valid_prefix (prefix_from a (bit_len a)) \<and> masked (prefix_from a (bit_len a)) = prefix_from a (bit_len a)"
  by (cases a) (simp_all add: prefix_from_def keep_top_def valid_prefix_def)

lemma readAddress_valid: "readAddress e = Some p \<Longrightarrow> valid_prefix p \<and> masked p = p"
  using single_host_stored
  by (auto simp: readAddress_def parse_prefix_valid split: option.splits if_splits)

definition stored_form :: "prefix \<Rightarrow> bool" where
  "stored_form p \<longleftrightarrow> valid_prefix p \<and> masked p = p \<and> pfx_bits p \<noteq> 0"

lemma read_entries_stored:
  "read_entries es acc = Inr ps \<Longrightarrow> distinct acc \<Longrightarrow> \<forall>p \<in> set acc. stored_form p \<Longrightarrow>
   distinct ps \<and> (\<forall>p \<in> set ps. stored_form p) \<and> length ps \<le> length acc + length es"
proof (induction es acc rule: read_entries.induct)
  case (2 e es acc)
  obtain p where p: "readAddress e = Some p" "pfx_bits p \<noteq> 0"
    using "2.prems"(1) by (auto split: option.splits if_splits)
  then have stored: "stored_form p" using readAddress_valid by (simp add: stored_form_def)
  let ?acc = "if p \<in> set acc then acc else acc @ [p]"
  have "read_entries es ?acc = Inr ps" using "2.prems"(1) p by simp
  moreover have "distinct ?acc" using "2.prems"(2) by simp
  moreover have "\<forall>q \<in> set ?acc. stored_form q" using "2.prems"(3) stored by simp
  ultimately have "distinct ps \<and> (\<forall>p \<in> set ps. stored_form p) \<and> length ps \<le> length ?acc + length es"
    by (rule "2.IH" [OF p])
  then show ?case by (simp split: if_splits)
qed simp

lemma read_entries_blocks:
  "read_entries es acc = Inr ps \<Longrightarrow> set ps = set acc \<union> {p. \<exists>e \<in> set es. readAddress e = Some p}"
proof (induction es acc rule: read_entries.induct)
  case (2 e es acc)
  then show ?case by (auto split: option.splits if_splits)
qed auto

text \<open>The block an entry names before it is normalised.\<close>

definition named_block :: "string \<Rightarrow> prefix option" where
  "named_block entry =
     (case parse_prefix entry of
        Some p \<Rightarrow> Some p
      | None \<Rightarrow> (case parse_addr entry of
            None \<Rightarrow> None
          | Some a \<Rightarrow> Some (prefix_from (unmap a) (bit_len (unmap a)))))"

lemma readAddress_contains:
  "readAddress e = Some p \<Longrightarrow> \<exists>q. named_block e = Some q \<and> pfx_contains p a = pfx_contains q a"
  by (auto simp: readAddress_def named_block_def split: option.splits if_splits)

lemma readAddresses_stored:
  assumes "readAddresses sent = Inr ps"
  shows "distinct ps" "\<forall>p \<in> set ps. stored_form p" "length ps \<le> maxAddresses"
  using assms read_entries_stored [of "concat (map (fields_func address_separator) sent)" "[]" ps]
  by (auto simp: readAddresses_def Let_def split: if_splits)

lemma readAddresses_contains:
  assumes "readAddresses sent = Inr ps"
  shows "(\<exists>p \<in> set ps. pfx_contains p a) \<longleftrightarrow>
         (\<exists>line \<in> set sent. \<exists>entry \<in> set (fields_func address_separator line).
            \<exists>q. named_block entry = Some q \<and> pfx_contains q a)"
proof -
  let ?es = "concat (map (fields_func address_separator) sent)"
  have read: "read_entries ?es [] = Inr ps"
    using assms by (simp add: readAddresses_def Let_def split: if_splits)
  have all: "read_entries es acc = Inr ps' \<Longrightarrow> e \<in> set es \<Longrightarrow> readAddress e \<noteq> None" for es acc ps' e
    by (induction es acc rule: read_entries.induct) (auto split: option.splits if_splits)
  have "(\<exists>p \<in> set ps. pfx_contains p a) \<longleftrightarrow>
      (\<exists>e \<in> set ?es. \<exists>p. readAddress e = Some p \<and> pfx_contains p a)"
    by (auto simp: read_entries_blocks [OF read])
  also have "\<dots> \<longleftrightarrow> (\<exists>e \<in> set ?es. \<exists>q. named_block e = Some q \<and> pfx_contains q a)"
  proof (rule bex_cong [OF refl])
    fix e assume "e \<in> set ?es"
    then obtain p where p: "readAddress e = Some p" using all [OF read] by blast
    with readAddress_contains [OF p, of a]
    show "(\<exists>p. readAddress e = Some p \<and> pfx_contains p a) \<longleftrightarrow>
        (\<exists>q. named_block e = Some q \<and> pfx_contains q a)" by auto
  qed
  finally show ?thesis by simp
qed



section \<open>A list read back\<close>

lemma readAddress_not_4in6: "readAddress e = Some p \<Longrightarrow> \<not> is_4in6 (pfx_addr p)"
  using masked_4in6 unmap_not_4in6
  by (auto simp: readAddress_def prefix_from_def split: option.splits if_splits)

lemma readAddress_string: "readAddress e = Some p \<Longrightarrow> readAddress (prefix_string p) = Some p"
  using readAddress_valid [of e p] readAddress_not_4in6 [of e p] parse_prefix_string [of p]
  by (simp add: readAddress_def [of "prefix_string p"])

lemma read_entries_each:
  "read_entries es acc = Inr ps \<Longrightarrow> p \<in> set ps \<Longrightarrow> p \<in> set acc \<or> (\<exists>e. readAddress e = Some p)"
  using read_entries_blocks by blast

lemma read_entries_strings:
  "\<forall>p \<in> set ps. readAddress (prefix_string p) = Some p \<and> pfx_bits p \<noteq> 0 \<Longrightarrow> distinct (acc @ ps) \<Longrightarrow>
   read_entries (map prefix_string ps) acc = Inr (acc @ ps)"
  by (induction ps arbitrary: acc) auto

text \<open>The text of a block holds none of the characters that separate entries.\<close>

lemma block_no_separator:
  assumes "valid_prefix p" "c \<in> set (prefix_string p)"
  shows "\<not> address_separator c"
proof -
  have "hex_val c \<noteq> None \<or> c \<in> set '':./''"
    using assms addr_string_text [of "pfx_addr p" c] nat_digits_all_digits [of c "pfx_bits p"] digit_hex [of c]
    by (auto simp: prefix_string_def valid_prefix_def)
  moreover have "list_all (\<lambda>c. hex_val c = None \<and> c \<notin> set '':./'') [CHR '','', CHR '';'', CHR '' '', CHR 0x09, CHR 0x0A, CHR 0x0D]"
    by code_simp
  ultimately show ?thesis by (auto simp: address_separator_def)
qed

text \<open>
  C39: What the address screen accepts is what it shows and what the API is sent: the blocks of an
  accepted list, printed as the answer and the inventory print them, are read back by the screen as
  the same list, and by the client, from the wire, as the same list.
\<close>

theorem addresses_read_back:
  assumes "readAddresses sent = Inr ps"
  shows "readAddresses (map prefix_string ps) = Inr ps \<and> parse_allowed (map prefix_string ps) = Inr ps"
proof
  let ?es = "concat (map (fields_func address_separator) sent)"
  have read: "read_entries ?es [] = Inr ps" using assms by (simp add: readAddresses_def Let_def split: if_splits)
  note stored = readAddresses_stored [OF assms]
  have each: "\<forall>p \<in> set ps. readAddress (prefix_string p) = Some p \<and> pfx_bits p \<noteq> 0"
    using read_entries_each [OF read] readAddress_string stored(2) by (fastforce simp: stored_form_def)
  have "fields_func address_separator (prefix_string p) = [prefix_string p]" if "p \<in> set ps" for p
    using that stored(2) block_no_separator by (intro fields_func_one) (auto simp: stored_form_def)
  then have "map (fields_func address_separator) (map prefix_string ps) = map (\<lambda>p. [prefix_string p]) ps" by simp
  then have "concat (map (fields_func address_separator) (map prefix_string ps)) = map prefix_string ps"
    by (simp only:) (induction ps, simp_all)
  then show "readAddresses (map prefix_string ps) = Inr ps"
    using read_entries_strings [OF each, of "[]"] stored(1,3)
    by (simp add: readAddresses_def)
  show "parse_allowed (map prefix_string ps) = Inr ps"
    using stored(2) by (intro parse_allowed_strings) (simp add: list_all_iff stored_form_def)
qed

theorem addresses_read_back_witness:
  "readAddresses [''10.1.2.3/8;192.0.2.7'', ''192.0.2.7/32''] = readAddresses [''10.0.0.0/8'', ''192.0.2.7/32'']"
proof -
  let ?ps = "[Prefix (V4 0x0A000000) 8, Prefix (V4 0xC0000207) 32]"
  have read: "readAddresses [''10.1.2.3/8;192.0.2.7'', ''192.0.2.7/32''] = Inr ?ps" by code_simp
  have "map prefix_string ?ps = [''10.0.0.0/8'', ''192.0.2.7/32'']" by code_simp
  with addresses_read_back [OF read] read show ?thesis by (simp only:)
qed

section \<open>What the handler may write\<close>

definition seen_inside :: "'s server \<Rightarrow> 's \<Rightarrow> prefix list \<Rightarrow> bool" where
  "seen_inside srv s allowed =
     (case fst (rs_address (sv_resolver srv) s) of
        Inl _ \<Rightarrow> False
      | Inr a \<Rightarrow> list_ex (\<lambda>p. pfx_contains p a) allowed)"

text \<open>
  The whole handler: with the write asked for, one list is written and for one key; when that key
  is the one in use, the list is empty or holds the address looked up just before.
\<close>

definition address_effects ::
  "'s server \<Rightarrow> int option \<Rightarrow> bool \<Rightarrow> string list option \<Rightarrow> ('s \<Rightarrow> bool) \<Rightarrow> effect set" where
  "address_effects srv own w body reached =
     {RewriteAddresses j ps | j ps.
        w \<and> (\<exists>sent. body = Some sent \<and> readAddresses sent = Inr ps) \<and>
        (own = Some j \<and> ps \<noteq> [] \<longrightarrow> (\<exists>t. reached t \<and> seen_inside srv t ps))}"

context http_server
begin

lemma write_addresses_only:
  "only (if w then {RewriteAddresses i ps} else {}) s (snd (write_addresses srv w i ps seen s))"
  using set_addresses_frame
  by (simp add: write_addresses_def Let_def split_beta only_refl)

lemma check_lockout_frame: "only {} s (snd (check_lockout srv allowed s))"
  by (simp add: check_lockout_def Let_def split_beta lookup_frame)

lemma check_lockout_passes:
  "fst (check_lockout srv allowed s) = Inr seen \<Longrightarrow> seen_inside srv s allowed"
  by (auto simp: check_lockout_def seen_inside_def Let_def split_beta split: sum.splits if_splits)

lemma change_addresses_only:
  "only (if w \<and> (cred_id target = cred_id current \<and> ps \<noteq> [] \<longrightarrow> seen_inside srv s ps)
         then {RewriteAddresses (cred_id target) ps} else {})
     s (snd (change_addresses srv w current target ps s))"
    (is "only ?E s _")
proof (cases "cred_id target = cred_id current \<and> ps \<noteq> []")
  case True
  let ?r = "check_lockout srv ps s"
  have frame: "only {} s (snd ?r)" by (rule check_lockout_frame)
  show ?thesis
  proof (cases "fst ?r")
    case (Inl refused)
    then show ?thesis using True only_none [OF frame]
      by (simp add: change_addresses_def Let_def split_beta only_refl)
  next
    case (Inr seen)
    then have "seen_inside srv s ps" by (rule check_lockout_passes)
    with Inr True only_after_read [OF frame write_addresses_only [where w = w and i = "cred_id target" and ps = ps and seen = seen]]
    show ?thesis
      by (cases w) (simp_all add: change_addresses_def Let_def split_beta only_refl)
  qed
next
  case False
  then have E: "?E = (if w then {RewriteAddresses (cred_id target) ps} else {})" by auto
  show ?thesis
    unfolding E using False write_addresses_only [where w = w and i = "cred_id target" and ps = ps]
    by (auto simp: change_addresses_def only_refl)
qed

lemma change_within:
  assumes reach: "only {} s0 s" and ps: "readAddresses sent = Inr ps"
    and own: "identity s0 = Some (cred_id current)"
  shows "only (address_effects srv (identity s0) w (Some sent) (only {} s0)) s0
           (snd (change_addresses srv w current target ps s))"
proof (rule only_after_read [OF reach], rule only_mono [OF change_addresses_only])
  show "(if w \<and> (cred_id target = cred_id current \<and> ps \<noteq> [] \<longrightarrow> seen_inside srv s ps)
         then {RewriteAddresses (cred_id target) ps} else {})
      \<subseteq> address_effects srv (identity s0) w (Some sent) (only {} s0)"
    using assms by (auto simp: address_effects_def)
qed

lemma addresses_only:
  "only (address_effects srv (identity s) w body (only {} s)) s (snd (addresses srv path_id body w s))"
    (is "only ?E s _")
proof (cases "parse_int64 path_id")
  case None
  then show ?thesis by (simp add: addresses_def only_refl)
next
  case (Some i)
  note id = this
  show ?thesis
  proof (cases body)
    case None
    then show ?thesis using id by (simp add: addresses_def only_refl)
  next
    case (Some sent)
    note body = this
    show ?thesis
    proof (cases "readAddresses sent")
      case (Inl bad)
      then show ?thesis using id body by (cases bad) (simp add: addresses_def only_refl)
    next
      case (Inr ps)
      note ps = this
      have s1: "only {} s (snd (pr_current (sv_provider srv) s))" by (rule current_frame)
      show ?thesis
      proof (cases "fst (pr_current (sv_provider srv) s)")
        case (Inl e)
        then show ?thesis using id body ps only_none [OF s1]
          by (simp add: addresses_def Let_def split_beta)
      next
        case (Inr current)
        have own: "identity s = Some (cred_id current)" using Inr by (rule current_identity)
        have s2: "only {} s (snd (pr_get (sv_provider srv) i (snd (pr_current (sv_provider srv) s))))"
          by (rule only_trans [OF s1 get_frame])
        show ?thesis
          using id body ps Inr only_none [OF s2] change_within [OF s1 ps own] change_within [OF s2 ps own]
          by (simp add: addresses_def Let_def split_beta split: sum.split)
      qed
    qed
  qed
qed

lemma preview_only: "only {} s (snd (previewAddresses srv path_id body s))"
proof -
  have "address_effects srv (identity s) False body (only {} s) = {}"
    by (simp add: address_effects_def)
  then show ?thesis
    using addresses_only [of s False body path_id] by (simp add: previewAddresses_def)
qed

end

end
