(* ===== verification/Key_Audit.thy ===== *)
theory Key_Audit
  imports Ovh_Rules "HOL-Library.Sublist"
begin

text \<open>
  \<open>internal/audit/audit.go\<close>: what is wrong with a credential. \<open>Inspect\<close> reads one credential,
  \<open>Surplus\<close> compares its rules with the ones needed, \<open>Twins\<close> reads a whole set and
  \<open>Summarise\<close> counts. No call is made. The lemmas characterise each finding, tie the audit to
  \<open>Permits\<close>, so that no call to a sensitive branch escapes it, and relate the fingerprint of
  \<open>Twins\<close> to the multisets it stands for.
\<close>

section \<open>Findings\<close>

datatype severity = SeverityRisk | SeverityCaution | SeverityNote

datatype code =
    BroadAccess
  | NoIPRestriction
  | NoExpiry
  | ExpiresSoon
  | NeverUsed
  | Dormant
  | NoDescription
  | SupportIssued
  | AccountControl
  | BillingAccess
  | WiderThanNeeded
  | SameAsAnother
  | PendingValidation

text \<open>The codes are finitely many, so counts by code can be compared and evaluated.\<close>

instantiation code :: enum
begin

definition enum_code :: "code list" where
  "enum_code =
     [BroadAccess, NoIPRestriction, NoExpiry, ExpiresSoon, NeverUsed, Dormant, NoDescription,
      SupportIssued, AccountControl, BillingAccess, WiderThanNeeded, SameAsAnother, PendingValidation]"

definition enum_all_code :: "(code \<Rightarrow> bool) \<Rightarrow> bool" where
  "enum_all_code P \<longleftrightarrow> list_all P enum_class.enum"

definition enum_ex_code :: "(code \<Rightarrow> bool) \<Rightarrow> bool" where
  "enum_ex_code P \<longleftrightarrow> list_ex P enum_class.enum"

instance
proof
  have member: "c \<in> set (enum_class.enum :: code list)" for c :: code
    by (cases c) (simp_all add: enum_code_def)
  then show "UNIV = set (enum_class.enum :: code list)" by blast
  show "distinct (enum_class.enum :: code list)" by (simp add: enum_code_def)
  show "enum_class.enum_all P \<longleftrightarrow> Ball UNIV P" "enum_class.enum_ex P \<longleftrightarrow> Bex UNIV P" for P :: "code \<Rightarrow> bool"
    using member by (auto simp: enum_all_code_def enum_ex_code_def list_all_iff list_ex_iff)
qed

end

record finding =
  fi_code :: code
  fi_severity :: severity

abbreviation finding_of :: "code \<Rightarrow> severity \<Rightarrow> finding" where
  "finding_of c s \<equiv> \<lparr>fi_code = c, fi_severity = s\<rparr>"

fun severity_string :: "severity \<Rightarrow> string" where
  "severity_string SeverityRisk = ''risk''"
| "severity_string SeverityCaution = ''caution''"
| "severity_string SeverityNote = ''note''"

fun code_string :: "code \<Rightarrow> string" where
  "code_string BroadAccess = ''broad-access''"
| "code_string NoIPRestriction = ''no-ip-restriction''"
| "code_string NoExpiry = ''no-expiry''"
| "code_string ExpiresSoon = ''expires-soon''"
| "code_string NeverUsed = ''never-used''"
| "code_string Dormant = ''dormant''"
| "code_string NoDescription = ''no-description''"
| "code_string SupportIssued = ''support-issued''"
| "code_string AccountControl = ''account-control''"
| "code_string BillingAccess = ''billing-access''"
| "code_string WiderThanNeeded = ''wider-than-needed''"
| "code_string SameAsAnother = ''same-as-another''"
| "code_string PendingValidation = ''pending-validation''"

definition unusedGrace :: duration where "unusedGrace = 30 * 24 * hour_ns"
definition dormantAfter :: duration where "dormantAfter = 180 * 24 * hour_ns"
definition expiringWithin :: duration where "expiringWithin = 7 * 24 * hour_ns"

lemma code_string_inj: "code_string c = code_string d \<longleftrightarrow> c = d"
  by (cases c; cases d) simp_all

section \<open>Rules that reach too far\<close>

definition hasBroadRule :: "access_rule list \<Rightarrow> bool" where
  "hasBroadRule rules =
     list_ex (\<lambda>rule. case index_of (rule_path rule) ''*'' of
        None \<Rightarrow> False
      | Some star \<Rightarrow> trim_suffix (take star (rule_path rule)) ''/'' \<in> {[], ''/me''}) rules"

record branch =
  br_finding :: code
  br_path :: string
  br_methods :: "string list"

definition writes :: "string list" where
  "writes = [''POST'', ''PUT'', ''DELETE'']"

abbreviation control :: "string \<Rightarrow> string list \<Rightarrow> branch" where
  "control p ms \<equiv> \<lparr>br_finding = AccountControl, br_path = p, br_methods = ms\<rparr>"

abbreviation billing :: "string \<Rightarrow> branch" where
  "billing p \<equiv> \<lparr>br_finding = BillingAccess, br_path = p, br_methods = []\<rparr>"

definition SensitiveBranches :: "branch list" where
  "SensitiveBranches =
     [control ''/me/accessRestriction'' writes,
      control ''/me/identity'' writes,
      control ''/me/subAccount'' [''POST'', ''PUT''],
      control ''/me/api/oauth2/client'' [''POST'', ''PUT''],
      control ''/me/api/credential'' [''PUT''],
      control ''/me/changeEmail'' [''POST''],
      control ''/me/changePassword'' [''POST''],
      control ''/me/passwordRecover'' [''POST''],
      control ''/me/sshKey'' [''POST'', ''DELETE''],
      billing ''/me/autorenew'',
      billing ''/me/availableAutomaticPaymentMeans'',
      billing ''/me/bill'',
      billing ''/me/billing'',
      billing ''/me/consumption'',
      billing ''/me/correctiveInvoice'',
      billing ''/me/credit'',
      billing ''/me/debtAccount'',
      billing ''/me/deposit'',
      billing ''/me/downPaymentInvoice'',
      billing ''/me/fidelityAccount'',
      billing ''/me/order'',
      billing ''/me/ovhAccount'',
      billing ''/me/payment'',
      billing ''/me/paymentMean'',
      billing ''/me/refund'',
      billing ''/me/reverseBill'',
      billing ''/me/voucher'',
      billing ''/me/withdrawal'']"

definition within :: "string \<Rightarrow> string \<Rightarrow> bool" where
  "within path br \<longleftrightarrow> path = br \<or> has_prefix path (br @ ''/'')"

definition branch_Reaches :: "branch \<Rightarrow> access_rule \<Rightarrow> bool" where
  "branch_Reaches b rule =
     (if br_methods b \<noteq> [] \<and> \<not> list_ex (\<lambda>m. equal_fold m (rule_method rule)) (br_methods b) then False
      else case index_of (rule_path rule) ''*'' of
          None \<Rightarrow>
            if length (rule_path rule) > 1 \<and> has_suffix (rule_path rule) ''/'' then False
            else within (rule_path rule) (br_path b)
        | Some star \<Rightarrow>
            (let fixed = take star (rule_path rule)
             in within (trim_suffix fixed ''/'') (br_path b) \<or> has_prefix (br_path b) fixed))"

definition restrictsAddresses :: "prefix list \<Rightarrow> bool" where
  "restrictsAddresses allowed \<longleftrightarrow> allowed \<noteq> [] \<and> \<not> list_ex (\<lambda>p. pfx_bits p = 0) allowed"

definition reaches :: "access_rule list \<Rightarrow> code \<Rightarrow> bool" where
  "reaches rules fnd =
     list_ex (\<lambda>b. br_finding b = fnd \<and> list_ex (branch_Reaches b) rules) SensitiveBranches"

section \<open>Inspect\<close>

definition Examines :: "credential \<Rightarrow> bool" where
  "Examines c =
     (if app_deleted (cred_application c) then False
      else cred_status c = StatusValidated \<or> cred_status c = StatusPendingValidation)"

definition Inspect :: "credential \<Rightarrow> time \<Rightarrow> finding list" where
  "Inspect c now =
     (if \<not> Examines c then []
      else
        (if cred_status c = StatusPendingValidation
         then [finding_of PendingValidation SeverityCaution] else []) @
        (if hasBroadRule (cred_rules c) then [finding_of BroadAccess SeverityRisk]
         else
           (if reaches (cred_rules c) AccountControl
            then [finding_of AccountControl SeverityRisk] else []) @
           (if reaches (cred_rules c) BillingAccess
            then [finding_of BillingAccess SeverityCaution] else [])) @
        (if \<not> restrictsAddresses (cred_allowed_ips c)
         then [finding_of NoIPRestriction SeverityCaution] else []) @
        (if is_zero_time (cred_expires_at c) then [finding_of NoExpiry SeverityCaution]
         else if cred_expires_at c > now \<and> time_sub (cred_expires_at c) now \<le> expiringWithin
         then [finding_of ExpiresSoon SeverityCaution] else []) @
        (if cred_status c \<noteq> StatusPendingValidation then
           (if is_zero_time (cred_last_used_at c) then
              (if \<not> is_zero_time (cred_created_at c) \<and> time_sub now (cred_created_at c) > unusedGrace
               then [finding_of NeverUsed SeverityCaution] else [])
            else if time_sub now (cred_last_used_at c) > dormantAfter
            then [finding_of Dormant SeverityCaution] else [])
         else []) @
        (if trim_space (app_description (cred_application c)) = []
         then [finding_of NoDescription SeverityNote] else []) @
        (if cred_issued_by_support c then [finding_of SupportIssued SeverityCaution] else []))"

section \<open>Surplus, twins, summary\<close>

definition Surplus :: "credential \<Rightarrow> access_rule list \<Rightarrow> access_rule list" where
  "Surplus c needed =
     filter (\<lambda>rule. \<not> list_ex (\<lambda>n. equal_fold (rule_method n) (rule_method rule) \<and>
                                   rule_path n = rule_path rule) needed) (cred_rules c)"

definition fingerprint :: "credential \<Rightarrow> string" where
  "fingerprint c =
     (let rules = sort (map (\<lambda>r. to_upper (rule_method r) @ '' '' @ rule_path r) (cred_rules c));
          addresses = sort (map prefix_string (cred_allowed_ips c))
      in format_int (app_id (cred_application c)) @ [CHR 0x0A] @
         join_with [CHR 0x0A] rules @ [CHR 0x0A] @ join_with [CHR 0x0A] addresses)"

text \<open>The map from a fingerprint to the identifiers that bear it, built key by key.\<close>

fun seen_by_fingerprint :: "credential list \<Rightarrow> (string \<Rightarrow> int list) \<Rightarrow> string \<Rightarrow> int list" where
  "seen_by_fingerprint [] seen = seen"
| "seen_by_fingerprint (c # cs) seen =
     (if \<not> Examines c \<or> app_id (cred_application c) = 0 then seen_by_fingerprint cs seen
      else let key = fingerprint c in seen_by_fingerprint cs (seen(key := seen key @ [cred_id c])))"

text \<open>
  The second loop ranges over the entries of that map; its keys are fingerprints of the set, and
  the order of the entries does not matter to a map of booleans.
\<close>

definition Twins :: "credential list \<Rightarrow> int \<Rightarrow> bool" where
  "Twins cs =
     (let seen = seen_by_fingerprint cs (\<lambda>_. [])
      in (\<lambda>i. list_ex (\<lambda>c. (let ids = seen (fingerprint c) in length ids \<ge> 2 \<and> i \<in> set ids)) cs))"

record summary =
  su_counts :: "code \<Rightarrow> int"
  su_flagged :: int
  su_at_risk :: int

fun summary_step :: "summary \<Rightarrow> finding list \<Rightarrow> summary" where
  "summary_step s list =
     (if list = [] then s
      else s\<lparr>su_counts := foldl (\<lambda>m f. m(fi_code f := m (fi_code f) + 1)) (su_counts s) list,
             su_flagged := su_flagged s + 1,
             su_at_risk := su_at_risk s + (if list_ex (\<lambda>f. fi_severity f = SeverityRisk) list then 1 else 0)\<rparr>)"

definition Summarise :: "finding list list \<Rightarrow> summary" where
  "Summarise findings =
     foldl summary_step \<lparr>su_counts = (\<lambda>_. 0), su_flagged = 0, su_at_risk = 0\<rparr> findings"

section \<open>The audit and the calls a key permits\<close>

lemma within_prefix: "within path b \<Longrightarrow> has_prefix path b"
  by (auto simp: within_def has_prefix_iff)

lemma within_trim:
  assumes "has_prefix fixed b" "within path b" "has_prefix path fixed"
  shows "within (trim_suffix fixed ''/'') b \<or> has_prefix b fixed"
proof (cases "fixed = b")
  case False
  with assms(1) obtain x where x: "fixed = b @ x" "x \<noteq> []" by (auto simp: has_prefix_iff)
  with assms(2,3) obtain r where "x = CHR ''/'' # r"
    by (cases x) (auto simp: within_def has_prefix_iff)
  with x have fixed: "fixed = b @ ''/'' @ r" by simp
  show ?thesis
  proof (cases "has_suffix fixed ''/''")
    case True
    then obtain u where u: "fixed = u @ ''/''" by (auto simp: has_suffix_iff)
    then have "trim_suffix fixed ''/'' = u" by (simp add: trim_suffix_def has_suffix_iff)
    moreover have "within u b"
    proof (cases r rule: rev_cases)
      case Nil
      with u fixed show ?thesis by (simp add: within_def)
    next
      case (snoc r' c)
      with u fixed have "u = b @ ''/'' @ r'" by simp
      then show ?thesis by (simp add: within_def has_prefix_iff)
    qed
    ultimately show ?thesis by simp
  next
    case False
    then have "trim_suffix fixed ''/'' = fixed" by (simp add: trim_suffix_def)
    with fixed show ?thesis by (simp add: within_def has_prefix_iff)
  qed
qed simp

text \<open>A rule that covers one real route of a branch reaches the branch.\<close>

lemma branch_Reaches_sound:
  assumes m: "br_methods b = [] \<or> (\<exists>m \<in> set (br_methods b). equal_fold (rule_method r) m)"
    and path: "match_path (rule_path r) path" "within path (br_path b)"
    and route: "\<not> (length path > 1 \<and> has_suffix path ''/'')"
  shows "branch_Reaches b r"
proof -
  have meth: "\<not> (br_methods b \<noteq> [] \<and> \<not> list_ex (\<lambda>m. equal_fold m (rule_method r)) (br_methods b))"
    using m by (auto simp: list_ex_iff equal_fold_sym)
  show ?thesis
  proof (cases "index_of (rule_path r) ''*''")
    case None
    then have "CHR ''*'' \<notin> set (rule_path r)" by (simp add: index_of_char_None)
    then have "rule_path r = path" using path(1) by (simp add: match_path_literal)
    with None meth path(2) route show ?thesis by (auto simp: branch_Reaches_def)
  next
    case (Some star)
    let ?fixed = "take star (rule_path r)"
    have fixed: "has_prefix path ?fixed" using Some path(1) by (rule match_path_fixed_prefix)
    from has_prefix_comparable [OF fixed within_prefix [OF path(2)]]
    have "within (trim_suffix ?fixed ''/'') (br_path b) \<or> has_prefix (br_path b) ?fixed"
      using within_trim [OF _ path(2) fixed] by blast
    with Some meth show ?thesis by (auto simp: branch_Reaches_def Let_def)
  qed
qed

text \<open>A rule with its one wildcard at the end reaches a branch only through a route of it.\<close>

lemma branch_Reaches_complete:
  assumes "branch_Reaches b r" and r: "rule_path r = fixed @ ''*''" and "CHR ''*'' \<notin> set fixed"
  shows "\<exists>path. match_path (rule_path r) path \<and> within path (br_path b)"
proof -
  have "index_of (rule_path r) ''*'' = Some (length fixed)"
    unfolding r using assms(3) by (induction fixed) auto
  then have disj: "within (trim_suffix fixed ''/'') (br_path b) \<or> has_prefix (br_path b) fixed"
    using assms(1) r by (auto simp: branch_Reaches_def Let_def split: if_splits)
  have match: "match_path (rule_path r) path \<longleftrightarrow> has_prefix path fixed" for path
    unfolding r using assms(3) by (rule match_path_star_suffix)
  show ?thesis
  proof (cases "has_prefix (br_path b) fixed")
    case True
    then show ?thesis using match by (auto simp: within_def)
  next
    case False
    with disj have "within (trim_suffix fixed ''/'') (br_path b)" by simp
    then have "within fixed (br_path b)"
      by (cases rule: trim_suffix_cases [of fixed "''/''"]) (auto simp: within_def has_prefix_iff)
    then show ?thesis using match by (intro exI [of _ fixed]) (simp add: has_prefix_iff)
  qed
qed

lemma reaches_iff:
  "reaches rules f \<longleftrightarrow>
   (\<exists>b \<in> set SensitiveBranches. br_finding b = f \<and> (\<exists>r \<in> set rules. branch_Reaches b r))"
  by (auto simp: reaches_def list_ex_iff)

lemma Inspect_risk_codes:
  assumes "Examines c"
  shows "finding_of BroadAccess SeverityRisk \<in> set (Inspect c now) \<longleftrightarrow> hasBroadRule (cred_rules c)"
    and "finding_of AccountControl SeverityRisk \<in> set (Inspect c now) \<longleftrightarrow>
           \<not> hasBroadRule (cred_rules c) \<and> reaches (cred_rules c) AccountControl"
    and "finding_of BillingAccess SeverityCaution \<in> set (Inspect c now) \<longleftrightarrow>
           \<not> hasBroadRule (cred_rules c) \<and> reaches (cred_rules c) BillingAccess"
  using assms by (auto simp: Inspect_def)

text \<open>
  C11: No call to a sensitive branch escapes the audit. When a key the audit reads permits a call
  whose path is a route of one of the branches, with a method the branch is sensitive to, then
  the key carries the finding of that branch, or the one for keys that reach the whole account.
\<close>

theorem no_sensitive_call_escapes:
  assumes "Examines c" "b \<in> set SensitiveBranches" "permits c m path"
    and "within path (br_path b)" "\<not> (length path > 1 \<and> has_suffix path ''/'')"
    and "br_methods b = [] \<or> (\<exists>x \<in> set (br_methods b). equal_fold m x)"
  shows "\<exists>f \<in> set (Inspect c now). fi_code f = BroadAccess \<or> fi_code f = br_finding b"
proof -
  from assms(3) obtain r where r: "r \<in> set (cred_rules c)" "equal_fold (rule_method r) m"
    "match_path (rule_path r) path"
    by (auto simp: permits_def list_ex_iff)
  have "br_methods b = [] \<or> (\<exists>x \<in> set (br_methods b). equal_fold (rule_method r) x)"
    using assms(6) r(2) equal_fold_trans by blast
  then have "branch_Reaches b r"
    using r(3) assms(4,5) by (rule branch_Reaches_sound)
  then have reach: "reaches (cred_rules c) (br_finding b)"
    using assms(2) r(1) by (auto simp: reaches_iff)
  have "br_finding b = AccountControl \<or> br_finding b = BillingAccess"
    using assms(2) by (auto simp: SensitiveBranches_def)
  with reach have "\<exists>s. finding_of BroadAccess s \<in> set (Inspect c now) \<or>
      finding_of (br_finding b) s \<in> set (Inspect c now)"
    using Inspect_risk_codes [OF assms(1), of now] by metis
  then show ?thesis by force
qed

theorem no_sensitive_call_escapes_witness:
  "\<exists>f \<in> set (Inspect (zero_credential\<lparr>cred_status := StatusValidated,
       cred_rules := [\<lparr>rule_method = ''get'', rule_path = ''/me/i*''\<rparr>,
                      \<lparr>rule_method = ''post'', rule_path = ''/me/i*''\<rparr>]\<rparr>) 5).
     fi_code f = BroadAccess \<or> fi_code f = br_finding (control ''/me/identity'' writes)"
  by (rule no_sensitive_call_escapes [where m = "''POST''" and path = "''/me/identity/user/bob''"])
    code_simp+

section \<open>One finding of each code\<close>

lemma Inspect_code_order:
  "subseq (map fi_code (Inspect c now))
     ([PendingValidation] @ [BroadAccess, AccountControl, BillingAccess] @ [NoIPRestriction] @
      [NoExpiry, ExpiresSoon] @ [NeverUsed, Dormant] @ [NoDescription] @ [SupportIssued])"
proof (cases "Examines c")
  case True
  then show ?thesis
    unfolding Inspect_def map_append if_False not_True_eq_False if_True not_not
    by (simp only: if_True if_False simp_thms map_append) (intro list_emb_append_mono; simp)
qed (simp add: Inspect_def)

lemma Inspect_distinct: "distinct (map fi_code (Inspect c now))"
proof -
  obtain N where "map fi_code (Inspect c now) =
      nths ([PendingValidation] @ [BroadAccess, AccountControl, BillingAccess] @ [NoIPRestriction] @
        [NoExpiry, ExpiresSoon] @ [NeverUsed, Dormant] @ [NoDescription] @ [SupportIssued]) N"
    using Inspect_code_order [of c now] subseq_conv_nths by blast
  then show ?thesis by (simp only:) (intro distinct_nthsI, simp)
qed

lemma foldl_count_codes:
  "foldl (\<lambda>m f. m(fi_code f := m (fi_code f) + (1::int))) m fs k =
   m k + int (count_list (map fi_code fs) k)"
  by (induction fs arbitrary: m) auto

lemma count_distinct: "distinct xs \<Longrightarrow> count_list xs x = (if x \<in> set xs then 1 else 0)"
  by (induction xs) auto

lemma count_codes:
  "distinct (map fi_code fs) \<Longrightarrow> count_list (map fi_code fs) k = (if k \<in> fi_code ` set fs then 1 else 0)"
  using count_distinct [of "map fi_code fs" k] by simp

lemma foldl_summary_step:
  assumes "\<forall>fs \<in> set fss. distinct (map fi_code fs)"
  shows "su_counts (foldl summary_step s fss) k =
           su_counts s k + int (length (filter (\<lambda>fs. k \<in> fi_code ` set fs) fss))"
    and "su_flagged (foldl summary_step s fss) = su_flagged s + int (length (filter (\<lambda>fs. fs \<noteq> []) fss))"
    and "su_at_risk (foldl summary_step s fss) =
           su_at_risk s + int (length (filter (\<lambda>fs. \<exists>f \<in> set fs. fi_severity f = SeverityRisk) fss))"
  using assms
  by (induction fss arbitrary: s)
    (simp_all add: foldl_count_codes count_codes list_ex_iff del: set_map)

text \<open>
  The summary of a set of credentials counts credentials and not findings: under each code,
  how many credentials raised it; how many raised anything; and how many raised a risk.
\<close>

lemma Summarise_counts_credentials:
  "Summarise (map (\<lambda>c. Inspect c now) cs) =
     \<lparr>su_counts = (\<lambda>k. int (length (filter (\<lambda>c. k \<in> fi_code ` set (Inspect c now)) cs))),
      su_flagged = int (length (filter (\<lambda>c. Inspect c now \<noteq> []) cs)),
      su_at_risk = int (length (filter (\<lambda>c. \<exists>f \<in> set (Inspect c now). fi_severity f = SeverityRisk) cs))\<rparr>"
proof -
  have d: "\<forall>fs \<in> set (map (\<lambda>c. Inspect c now) cs). distinct (map fi_code fs)"
    by (simp add: Inspect_distinct)
  show ?thesis
    unfolding Summarise_def
    by (rule summary.equality)
      (simp_all add: fun_eq_iff foldl_summary_step [OF d] filter_map comp_def del: set_map)
qed

section \<open>What a fingerprint stands for\<close>

definition rule_line :: "access_rule \<Rightarrow> string" where
  "rule_line r = to_upper (rule_method r) @ '' '' @ rule_path r"

text \<open>No separator inside what the separators separate.\<close>

definition printable :: "credential \<Rightarrow> bool" where
  "printable c \<longleftrightarrow>
     list_all (\<lambda>r. CHR 0x0A \<notin> set (rule_line r) \<and> CHR '' '' \<notin> set (to_upper (rule_method r))) (cred_rules c) \<and>
     list_all valid_prefix (cred_allowed_ips c)"

definition or_blank :: "string list \<Rightarrow> string list" where
  "or_blank xs = (if xs = [] then [[]] else xs)"

lemma join_or_blank: "join_with sep (or_blank xs) = join_with sep xs" "or_blank xs \<noteq> []"
  by (simp_all add: or_blank_def)

lemma fingerprint_rule_lines:
  "fingerprint c = format_int (app_id (cred_application c)) @ [CHR 0x0A] @
     join_with [CHR 0x0A] (sort (map rule_line (cred_rules c))) @ [CHR 0x0A] @
     join_with [CHR 0x0A] (sort (map prefix_string (cred_allowed_ips c)))"
proof -
  have "rule_line = (\<lambda>r. to_upper (rule_method r) @ '' '' @ rule_path r)"
    by (rule ext) (simp add: rule_line_def)
  then show ?thesis by (simp add: fingerprint_def)
qed

lemma fingerprint_lines:
  assumes "printable c"
  shows "split_char (CHR 0x0A) (fingerprint c) =
           format_int (app_id (cred_application c)) #
           or_blank (sort (map rule_line (cred_rules c))) @
           or_blank (sort (map prefix_string (cred_allowed_ips c)))" (is "_ = ?i # ?r @ ?a")
proof -
  have "fingerprint c = join_with [CHR 0x0A] (?i # ?r @ ?a)"
    by (simp add: fingerprint_rule_lines join_with_Cons join_with_append join_or_blank)
  moreover have "\<forall>x \<in> set (?i # ?r @ ?a). CHR 0x0A \<notin> set x"
    using assms nat_digits_chars
    by (auto simp: printable_def list_all_iff or_blank_def format_int_def
        dest!: prefix_string_chars nat_digits_chars)
  ultimately show ?thesis by (metis list.distinct(1) split_join)
qed

lemma rule_line_split:
  assumes "CHR '' '' \<notin> set (to_upper (rule_method r))" "CHR '' '' \<notin> set (to_upper (rule_method q))"
  shows "rule_line r = rule_line q \<longleftrightarrow>
           to_upper (rule_method r) = to_upper (rule_method q) \<and> rule_path r = rule_path q"
proof
  assume "rule_line r = rule_line q"
  moreover have "cut_char (CHR '' '') (rule_line x) = Some (to_upper (rule_method x), rule_path x)"
    if "CHR '' '' \<notin> set (to_upper (rule_method x))" for x
    using that by (simp add: cut_char_Some rule_line_def)
  ultimately show "to_upper (rule_method r) = to_upper (rule_method q) \<and> rule_path r = rule_path q"
    using assms by (metis option.inject prod.inject)
qed (simp add: rule_line_def)

text \<open>The three parts are read back from the lines: a rule holds a space, an address does not.\<close>

definition lines_rules :: "string list \<Rightarrow> string list" where
  "lines_rules ls = filter (\<lambda>l. CHR '' '' \<in> set l) (tl ls)"

definition lines_addresses :: "string list \<Rightarrow> string list" where
  "lines_addresses ls = filter (\<lambda>l. l \<noteq> [] \<and> CHR '' '' \<notin> set l) (tl ls)"

lemma fingerprint_parts:
  assumes "printable c"
  shows "lines_rules (split_char (CHR 0x0A) (fingerprint c)) = sort (map rule_line (cred_rules c))"
    and "lines_addresses (split_char (CHR 0x0A) (fingerprint c)) =
           sort (map prefix_string (cred_allowed_ips c))"
proof -
  let ?r = "sort (map rule_line (cred_rules c))" and ?a = "sort (map prefix_string (cred_allowed_ips c))"
  have r: "\<forall>l \<in> set ?r. CHR '' '' \<in> set l" by (auto simp: rule_line_def)
  have a: "\<forall>l \<in> set ?a. l \<noteq> [] \<and> CHR '' '' \<notin> set l"
    using assms by (auto simp: printable_def list_all_iff dest!: prefix_string_chars)
  have "filter (\<lambda>l. CHR '' '' \<in> set l) (or_blank ?r) = ?r"
    "filter (\<lambda>l. CHR '' '' \<in> set l) (or_blank ?a) = []"
    "filter (\<lambda>l. l \<noteq> [] \<and> CHR '' '' \<notin> set l) (or_blank ?r) = []"
    "filter (\<lambda>l. l \<noteq> [] \<and> CHR '' '' \<notin> set l) (or_blank ?a) = ?a"
    using r a by (auto simp: or_blank_def filter_empty_conv simp del: set_sort intro!: filter_True)
  then show "lines_rules (split_char (CHR 0x0A) (fingerprint c)) = ?r"
    and "lines_addresses (split_char (CHR 0x0A) (fingerprint c)) = ?a"
    by (simp_all add: lines_rules_def lines_addresses_def fingerprint_lines [OF assms])
qed

lemma fingerprint_eq_iff:
  assumes "printable c" "printable d"
  shows "fingerprint c = fingerprint d \<longleftrightarrow>
           app_id (cred_application c) = app_id (cred_application d) \<and>
           mset (map rule_line (cred_rules c)) = mset (map rule_line (cred_rules d)) \<and>
           mset (map prefix_string (cred_allowed_ips c)) = mset (map prefix_string (cred_allowed_ips d))"
    (is "_ \<longleftrightarrow> ?same")
proof
  assume eq: "fingerprint c = fingerprint d"
  then have "app_id (cred_application c) = app_id (cred_application d)"
    using fingerprint_lines [OF assms(1)] fingerprint_lines [OF assms(2)] by simp
  moreover have "sort (map rule_line (cred_rules c)) = sort (map rule_line (cred_rules d))"
    using fingerprint_parts(1) [OF assms(1)] fingerprint_parts(1) [OF assms(2)] eq by simp
  moreover have "sort (map prefix_string (cred_allowed_ips c)) = sort (map prefix_string (cred_allowed_ips d))"
    using fingerprint_parts(2) [OF assms(1)] fingerprint_parts(2) [OF assms(2)] eq by simp
  ultimately show ?same by (simp add: sort_eq_iff_mset)
next
  assume ?same
  then show "fingerprint c = fingerprint d"
    by (simp only: fingerprint_rule_lines sort_eq_iff_mset [symmetric])
qed

definition rule_key :: "access_rule \<Rightarrow> string \<times> string" where
  "rule_key r = (to_upper (rule_method r), rule_path r)"

text \<open>Two keys nothing tells apart: what \<open>Twins\<close> means to compare.\<close>

definition interchangeable :: "credential \<Rightarrow> credential \<Rightarrow> bool" where
  "interchangeable c d \<longleftrightarrow>
     app_id (cred_application c) = app_id (cred_application d) \<and>
     mset (map rule_key (cred_rules c)) = mset (map rule_key (cred_rules d)) \<and>
     mset (map prefix_string (cred_allowed_ips c)) = mset (map prefix_string (cred_allowed_ips d))"

definition compared :: "credential \<Rightarrow> bool" where
  "compared c \<longleftrightarrow> Examines c \<and> app_id (cred_application c) \<noteq> 0"

lemma cut_rule_lines:
  "printable c \<Longrightarrow>
   map (\<lambda>l. the (cut_char (CHR '' '') l)) (map rule_line (cred_rules c)) = map rule_key (cred_rules c)"
proof -
  have "the (cut_char (CHR '' '') (rule_line r)) = rule_key r"
    if "CHR '' '' \<notin> set (to_upper (rule_method r))" for r
  proof -
    have "cut_char (CHR '' '') (rule_line r) = Some (rule_key r)"
      using that by (simp add: cut_char_Some rule_line_def rule_key_def)
    then show ?thesis by simp
  qed
  then show "printable c \<Longrightarrow> ?thesis" by (auto simp: printable_def list_all_iff)
qed

lemma mset_map_map: "mset (map f xs) = mset (map f ys) \<Longrightarrow> mset (map g (map f xs)) = mset (map g (map f ys))"
  by (metis mset_map)

lemma rule_line_key: "rule_line r = (\<lambda>(m, p). m @ '' '' @ p) (rule_key r)"
  by (simp add: rule_line_def rule_key_def)

lemma fingerprint_interchangeable:
  assumes "printable c" "printable d"
  shows "fingerprint c = fingerprint d \<longleftrightarrow> interchangeable c d"
proof -
  have "mset (map rule_key (cred_rules c)) = mset (map rule_key (cred_rules d))"
    if "mset (map rule_line (cred_rules c)) = mset (map rule_line (cred_rules d))"
    using mset_map_map [OF that, of "\<lambda>l. the (cut_char (CHR '' '') l)"]
    by (simp only: cut_rule_lines assms)
  moreover have "map rule_line rs = map (\<lambda>(m, p). m @ '' '' @ p) (map rule_key rs)" for rs
    by (simp add: rule_line_key)
  then have "mset (map rule_line (cred_rules c)) = mset (map rule_line (cred_rules d))"
    if "mset (map rule_key (cred_rules c)) = mset (map rule_key (cred_rules d))"
    using mset_map_map [OF that, of "\<lambda>(m, p). m @ '' '' @ p"] by (simp only:)
  ultimately show ?thesis
    unfolding fingerprint_eq_iff [OF assms] interchangeable_def by blast
qed

lemma seen_by_fingerprint_eq:
  "seen_by_fingerprint cs seen k =
     seen k @ map cred_id (filter (\<lambda>c. compared c \<and> fingerprint c = k) cs)"
  by (induction cs arbitrary: seen) (auto simp: compared_def Let_def)

lemma distinct_two: "distinct xs \<Longrightarrow> i \<in> set xs \<Longrightarrow> length xs \<ge> 2 \<longleftrightarrow> (\<exists>j \<in> set xs. j \<noteq> i)"
proof -
  assume d: "distinct xs" and i: "i \<in> set xs"
  have "length xs \<ge> 2 \<longleftrightarrow> \<not> card (set xs) \<le> Suc 0"
    using distinct_card [OF d] by auto
  also have "\<dots> \<longleftrightarrow> (\<exists>j \<in> set xs. j \<noteq> i)"
    using i by (metis card_le_Suc0_iff_eq finite_set)
  finally show ?thesis .
qed

text \<open>
  C29: A key is reported as a twin exactly when the set holds another key, not it, that nothing
  tells apart from it: both examined, the same application, the same rules whatever their order
  and the case of their methods, and the same allowed blocks whatever their order. The text the
  comparison goes through never merges two keys that differ.
\<close>

theorem Twins_iff_interchangeable:
  assumes "distinct (map cred_id cs)" "list_all printable cs"
  shows "Twins cs i \<longleftrightarrow>
           (\<exists>c \<in> set cs. \<exists>d \<in> set cs. cred_id c = i \<and> cred_id d \<noteq> i \<and>
              compared c \<and> compared d \<and> interchangeable c d)"
proof -
  let ?ids = "\<lambda>k. map cred_id (filter (\<lambda>c. compared c \<and> fingerprint c = k) cs)"
  have twins: "Twins cs i \<longleftrightarrow> (\<exists>e \<in> set cs. length (?ids (fingerprint e)) \<ge> 2 \<and> i \<in> set (?ids (fingerprint e)))"
    by (simp add: Twins_def seen_by_fingerprint_eq list_ex_iff Let_def)
  have "distinct (?ids k)" for k using assms(1) by (rule distinct_map_filter)
  then have two: "length (?ids k) \<ge> 2 \<longleftrightarrow> (\<exists>j \<in> set (?ids k). j \<noteq> i)" if "i \<in> set (?ids k)" for k
    using that by (intro distinct_two)
  have "Twins cs i \<longleftrightarrow> (\<exists>e \<in> set cs. i \<in> set (?ids (fingerprint e)) \<and>
      (\<exists>j \<in> set (?ids (fingerprint e)). j \<noteq> i))"
    unfolding twins by (rule bex_cong [OF refl]) (use two in blast)
  also have "\<dots> \<longleftrightarrow> (\<exists>c \<in> set cs. \<exists>d \<in> set cs. cred_id c = i \<and> cred_id d \<noteq> i \<and>
      compared c \<and> compared d \<and> fingerprint c = fingerprint d)"
    by auto metis+
  finally show ?thesis
    using fingerprint_interchangeable assms(2) by (auto simp: list_all_iff)
qed

theorem Twins_iff_interchangeable_witness:
  "let key = (\<lambda>i. zero_credential\<lparr>cred_id := i, cred_status := StatusValidated,
                  cred_application := zero_application\<lparr>app_id := 4\<rparr>,
                  cred_rules := [mk_rule ''get'' ''/a'', mk_rule ''PUT'' ''/b''],
                  cred_allowed_ips := [Prefix (V4 0x0A000001) 32]\<rparr>);
       cs = [key 1, (key 2)\<lparr>cred_rules := [mk_rule ''put'' ''/b'', mk_rule ''GET'' ''/a'']\<rparr>]
   in Twins cs 1 \<longleftrightarrow>
        (\<exists>c \<in> set cs. \<exists>d \<in> set cs. cred_id c = 1 \<and> cred_id d \<noteq> 1 \<and>
           compared c \<and> compared d \<and> interchangeable c d)"
  unfolding Let_def by (rule Twins_iff_interchangeable; code_simp)

section \<open>Surplus and the management rules\<close>

text \<open>
  C30: A key that holds no rule beyond the needed ones can make no call a key with exactly the
  needed rules could not make: \<open>Surplus\<close> compares rule by rule, and that is enough.
\<close>

theorem no_surplus_no_extra_call:
  assumes "Surplus c needed = []" "permits c m path"
  shows "permits (c\<lparr>cred_rules := needed\<rparr>) m path"
proof -
  from assms(2) obtain r where r: "r \<in> set (cred_rules c)" "equal_fold (rule_method r) m"
    "match_path (rule_path r) path"
    by (auto simp: permits_def list_ex_iff)
  with assms(1) obtain n where "n \<in> set needed" "equal_fold (rule_method n) (rule_method r)"
    "rule_path n = rule_path r"
    by (auto simp: Surplus_def filter_empty_conv list_ex_iff)
  with r show ?thesis by (auto simp: permits_def list_ex_iff intro: equal_fold_trans)
qed

theorem no_surplus_no_extra_call_witness:
  "permits (zero_credential\<lparr>cred_rules := [mk_rule ''get'' ''/me/api/credential/*'']\<rparr>
     \<lparr>cred_rules := UsableRules\<rparr>) ''GET'' ''/me/api/credential/7''"
  by (rule no_surplus_no_extra_call; code_simp)

lemma management_reaches:
  "\<not> hasBroadRule ManagementRules" "\<not> reaches ManagementRules AccountControl"
  "\<not> reaches ManagementRules BillingAccess"
  "\<not> hasBroadRule UsableRules" "reaches UsableRules AccountControl"
  by code_simp+

text \<open>
  The key the tool asks for does not trip its own audit: with the management rules and no
  other it raises neither the finding for a key that reaches the whole account nor those for a
  sensitive branch, while adding the rule that rewrites address lists, which is not part of
  them, raises the risk of account control.
\<close>

lemma management_key_is_clean:
  "fi_code ` set (Inspect (c\<lparr>cred_rules := ManagementRules\<rparr>) now) \<inter>
       {BroadAccess, AccountControl, BillingAccess} = {} \<and>
   (finding_of AccountControl SeverityRisk \<in> set (Inspect (c\<lparr>cred_rules := UsableRules\<rparr>) now)
       \<longleftrightarrow> Examines c)"
proof
  show "fi_code ` set (Inspect (c\<lparr>cred_rules := ManagementRules\<rparr>) now) \<inter>
       {BroadAccess, AccountControl, BillingAccess} = {}"
    by (auto simp: Inspect_def management_reaches split: if_splits)
  have "Examines (c\<lparr>cred_rules := UsableRules\<rparr>) = Examines c" by (simp add: Examines_def)
  then show "finding_of AccountControl SeverityRisk \<in> set (Inspect (c\<lparr>cred_rules := UsableRules\<rparr>) now)
       \<longleftrightarrow> Examines c"
    using Inspect_risk_codes(2) [of "c\<lparr>cred_rules := UsableRules\<rparr>" now]
    by (cases "Examines c") (simp_all add: management_reaches Inspect_def)
qed

section \<open>A rule the audit underrates\<close>

text \<open>
  The fixed part \<open>/m\<close> of \<open>/m*\<close> is neither empty nor \<open>/me\<close>, and the rule covers the account root
  and everything below it all the same.
\<close>

lemma broad_rule_missed:
  "\<not> hasBroadRule [mk_rule method ''/m*'']"
  "has_prefix path ''/me'' \<Longrightarrow> match_path ''/m*'' path"
proof -
  show "\<not> hasBroadRule [mk_rule method ''/m*'']"
    by (simp add: hasBroadRule_def trim_suffix_def has_suffix_def)
  show "has_prefix path ''/me'' \<Longrightarrow> match_path ''/m*'' path"
    using match_path_star_suffix [of "''/m''" path] by (auto simp: go_iff)
qed

end
