(* ===== verification/Http_Inventory.thy ===== *)
theory Http_Inventory
  imports Http_Addresses Key_Audit
begin

text \<open>
  \<open>internal/httpapi/inventory.go\<close>: the inventory, every key with its findings and with what may be
  done to it, the summary and the order of the list. The clock is the argument \<open>now\<close>. The lemmas
  say that the list shows every key once in the announced order, whatever sorting algorithm
  \<open>slices.SortFunc\<close> uses, and that the summary counts keys.
\<close>

section \<open>Views\<close>

record credential_view =
  cv_id :: int
  cv_self :: bool
  cv_status :: status
  cv_application :: application
  cv_rules :: "access_rule list"
  cv_allowed_ips :: "string list"
  cv_findings :: "finding list"
  cv_unneeded :: "access_rule list"
  cv_revoke :: offer
  cv_edit_addresses :: offer
  cv_created_at :: "time option"
  cv_expires_at :: "time option"
  cv_last_used_at :: "time option"

record summary_view =
  sm_total :: int
  sm_examined :: int
  sm_unreadable :: int
  sm_flagged :: int
  sm_at_risk :: int
  sm_counts :: "code \<Rightarrow> int"

record inventory_answer =
  in_endpoint :: string
  in_current :: "int option"
  in_summary :: summary_view
  in_credentials :: "credential_view list"

definition optional :: "time \<Rightarrow> time option" where
  "optional t = (if is_zero_time t then None else Some t)"

definition describe ::
  "credential \<Rightarrow> credential option \<Rightarrow> finding list \<Rightarrow> offer \<Rightarrow> access_rule list \<Rightarrow> offer \<Rightarrow> credential_view" where
  "describe c current found revocation unneeded editing =
     \<lparr>cv_id = cred_id c,
      cv_self = (case current of None \<Rightarrow> False | Some own \<Rightarrow> cred_id own = cred_id c),
      cv_status = cred_status c,
      cv_application = cred_application c,
      cv_rules = cred_rules c,
      cv_allowed_ips = map prefix_string (cred_allowed_ips c),
      cv_findings = found,
      cv_unneeded = unneeded,
      cv_revoke = revocation,
      cv_edit_addresses = editing,
      cv_created_at = optional (cred_created_at c),
      cv_expires_at = optional (cred_expires_at c),
      cv_last_used_at = optional (cred_last_used_at c)\<rparr>"

definition summarise :: "credential list \<Rightarrow> finding list list \<Rightarrow> summary_view" where
  "summarise credentials findings =
     (let counted = Summarise findings in
      \<lparr>sm_total = int (length credentials),
       sm_examined = int (length (filter Examines credentials)),
       sm_unreadable = 0,
       sm_flagged = su_flagged counted,
       sm_at_risk = su_at_risk counted,
       sm_counts = su_counts counted\<rparr>)"

section \<open>The order of the list\<close>

definition compare_int :: "int \<Rightarrow> int \<Rightarrow> int" where
  "compare_int a b = (if a < b then -1 else if a > b then 1 else 0)"

fun compareUse :: "time option \<Rightarrow> time option \<Rightarrow> int" where
  "compareUse None None = 0"
| "compareUse None (Some _) = 1"
| "compareUse (Some _) None = -1"
| "compareUse (Some a) (Some b) = compare_int b a"

definition compare_views :: "credential_view \<Rightarrow> credential_view \<Rightarrow> int" where
  "compare_views a b =
     (let order = compareUse (cv_last_used_at a) (cv_last_used_at b) in
      if order \<noteq> 0 then order else compare_int (cv_id b) (cv_id a))"

text \<open>\<open>slices.SortFunc\<close>, here by insertion.\<close>

fun insert_func :: "('a \<Rightarrow> 'a \<Rightarrow> int) \<Rightarrow> 'a \<Rightarrow> 'a list \<Rightarrow> 'a list" where
  "insert_func compare x [] = [x]"
| "insert_func compare x (y # ys) =
     (if compare x y \<le> 0 then x # y # ys else y # insert_func compare x ys)"

fun sort_func :: "('a \<Rightarrow> 'a \<Rightarrow> int) \<Rightarrow> 'a list \<Rightarrow> 'a list" where
  "sort_func compare [] = []"
| "sort_func compare (x # xs) = insert_func compare x (sort_func compare xs)"

section \<open>The handler\<close>

definition findings_of :: "credential option \<Rightarrow> credential list \<Rightarrow> time \<Rightarrow> credential \<Rightarrow> finding list" where
  "findings_of current credentials now c =
     Inspect c now @
     (if Twins credentials (cred_id c) then [finding_of SameAsAnother SeverityCaution] else []) @
     (if (case current of None \<Rightarrow> False | Some own \<Rightarrow> cred_id c = cred_id own) \<and>
         Surplus c UsableRules \<noteq> []
      then [finding_of WiderThanNeeded SeverityCaution] else [])"

definition unneeded_of :: "credential option \<Rightarrow> credential \<Rightarrow> access_rule list" where
  "unneeded_of current c =
     (case current of
        None \<Rightarrow> []
      | Some own \<Rightarrow> if cred_id c = cred_id own then Surplus c UsableRules else [])"

definition view_of ::
  "'s server \<Rightarrow> credential option \<Rightarrow> credential list \<Rightarrow> time \<Rightarrow> credential \<Rightarrow> credential_view" where
  "view_of srv current credentials now c =
     describe c current (findings_of current credentials now c) (revocationOffer srv current c)
       (unneeded_of current c) (addressOffer srv current c)"

definition inventory :: "'s server \<Rightarrow> time \<Rightarrow> ('s, inventory_answer response) op" where
  "inventory srv now s =
     (let (own, s1) = pr_current (sv_provider srv) s;
          current = right_value own;
          ((listed, unreadable, err), s2) = list_credentials srv s1
      in (case err of
            Some e \<Rightarrow> failInventory (Some e) (left_error own)
          | None \<Rightarrow>
              (let credentials = slice listed;
                   findings = map (findings_of current credentials now) credentials
               in Answered 200
                    \<lparr>in_endpoint = sv_endpoint srv,
                     in_current = map_option cred_id current,
                     in_summary = (summarise credentials findings)\<lparr>sm_unreadable := unreadable\<rparr>,
                     in_credentials =
                       sort_func compare_views (map (view_of srv current credentials now) credentials)\<rparr>),
          s2))"

section \<open>Sorting\<close>

lemma mset_insert_func: "mset (insert_func f x xs) = add_mset x (mset xs)"
  by (induction xs) simp_all

lemma mset_sort_func [simp]: "mset (sort_func f xs) = mset xs"
  by (induction xs) (simp_all add: mset_insert_func)

lemma set_sort_func [simp]: "set (sort_func f xs) = set xs"
  by (metis mset_sort_func set_mset_mset)

lemma set_insert_func [simp]: "set (insert_func f x xs) = insert x (set xs)"
  by (induction xs) auto

locale comparator =
  fixes compare :: "'a \<Rightarrow> 'a \<Rightarrow> int"
  assumes total: "compare x y \<le> 0 \<or> compare y x \<le> 0"
    and trans: "compare x y \<le> 0 \<Longrightarrow> compare y z \<le> 0 \<Longrightarrow> compare x z \<le> 0"
begin

abbreviation ordered :: "'a list \<Rightarrow> bool" where
  "ordered \<equiv> sorted_wrt (\<lambda>x y. compare x y \<le> 0)"

lemma ordered_insert: "ordered xs \<Longrightarrow> ordered (insert_func compare x xs)"
proof (induction xs)
  case (Cons y ys)
  then show ?case using total [of x y] trans by auto
qed simp

lemma ordered_sort: "ordered (sort_func compare xs)"
  by (induction xs) (simp_all add: ordered_insert)

text \<open>With no ties there is one ordered arrangement, so every sorting algorithm gives it.\<close>

lemma ordered_unique:
  assumes "ordered xs" "ordered ys" "mset xs = mset ys"
    and "\<And>x y. x \<in> set xs \<Longrightarrow> y \<in> set xs \<Longrightarrow> compare x y \<le> 0 \<Longrightarrow> compare y x \<le> 0 \<Longrightarrow> x = y"
  shows "xs = ys"
  using assms
proof (induction xs arbitrary: ys)
  case (Cons x xs)
  then obtain y ys' where ys: "ys = y # ys'" by (cases ys) auto
  have sets: "set (x # xs) = set ys" using Cons.prems(3) by (rule mset_eq_setD)
  have "x = y"
  proof (rule ccontr)
    assume "x \<noteq> y"
    then have "x \<in> set ys'" "y \<in> set xs" using sets ys by auto
    then have "compare y x \<le> 0" "compare x y \<le> 0" using Cons.prems(1,2) ys by auto
    with Cons.prems(4) [of x y] \<open>y \<in> set xs\<close> \<open>x \<noteq> y\<close> show False by simp
  qed
  moreover from this have "xs = ys'" using Cons ys by auto
  ultimately show ?case using ys by simp
qed simp

end

definition shown_before :: "credential_view \<Rightarrow> credential_view \<Rightarrow> bool" where
  "shown_before a b =
     (case (cv_last_used_at a, cv_last_used_at b) of
        (Some t, Some u) \<Rightarrow> t > u \<or> t = u \<and> cv_id a \<ge> cv_id b
      | (Some _, None) \<Rightarrow> True
      | (None, Some _) \<Rightarrow> False
      | (None, None) \<Rightarrow> cv_id a \<ge> cv_id b)"

lemma compare_views_before: "compare_views a b \<le> 0 \<longleftrightarrow> shown_before a b"
  by (cases "cv_last_used_at a"; cases "cv_last_used_at b")
    (auto simp: compare_views_def shown_before_def compare_int_def)

lemma shown_before_antisym: "shown_before a b \<Longrightarrow> shown_before b a \<Longrightarrow> cv_id a = cv_id b"
  by (auto simp: shown_before_def split: option.splits)

interpretation views: comparator compare_views
  by unfold_locales (auto simp: compare_views_before shown_before_def split: option.splits)

section \<open>What the inventory shows\<close>

lemma cv_id_view [simp]: "cv_id (view_of srv current cs now c) = cred_id c"
  by (simp add: view_of_def describe_def)

lemma findings_of_distinct: "distinct (map fi_code (findings_of current cs now c))"
proof -
  have "SameAsAnother \<notin> fi_code ` set (Inspect c now)" "WiderThanNeeded \<notin> fi_code ` set (Inspect c now)"
    by (auto simp: Inspect_def split: if_splits)
  then show ?thesis by (auto simp: findings_of_def Inspect_distinct)
qed

lemma summarise_counts:
  assumes "findings = map (findings_of current cs now) cs"
  shows "sm_flagged (summarise cs findings) =
           int (length (filter (\<lambda>c. findings_of current cs now c \<noteq> []) cs))"
    and "sm_counts (summarise cs findings) k =
           int (length (filter (\<lambda>c. k \<in> fi_code ` set (findings_of current cs now c)) cs))"
proof -
  have d: "\<forall>fs \<in> set findings. distinct (map fi_code fs)"
    by (simp add: assms findings_of_distinct)
  show "sm_flagged (summarise cs findings) =
           int (length (filter (\<lambda>c. findings_of current cs now c \<noteq> []) cs))"
    by (simp add: summarise_def Let_def Summarise_def foldl_summary_step [OF d])
      (simp add: assms filter_map comp_def)
  show "sm_counts (summarise cs findings) k =
           int (length (filter (\<lambda>c. k \<in> fi_code ` set (findings_of current cs now c)) cs))"
    by (simp add: summarise_def Let_def Summarise_def foldl_summary_step [OF d])
      (simp add: assms filter_map comp_def)
qed

lemma inventory_answer:
  assumes "inventory srv now s = (Answered n answer, t)"
  obtains own s1 listed unreadable s2 where
    "pr_current (sv_provider srv) s = (own, s1)"
    "list_credentials srv s1 = ((listed, unreadable, None), s2)"
    "in_credentials answer = sort_func compare_views
       (map (view_of srv (right_value own) (slice listed) now) (slice listed))"
    "in_summary answer = (summarise (slice listed)
       (map (findings_of (right_value own) (slice listed) now) (slice listed)))\<lparr>sm_unreadable := unreadable\<rparr>"
    "in_current answer = map_option cred_id (right_value own)"
  using assms
  by (auto simp: inventory_def Let_def failInventory_def fail_with_def split: prod.splits option.splits if_splits)

context http_server
begin

lemma inventory_only: "only {} s (snd (inventory srv now s))"
  using only_trans [OF current_frame list_credentials_frame]
  by (simp add: inventory_def Let_def split_beta)

end

end
