(* ===== verification/Http_Explorer.thy ===== *)
theory Http_Explorer
  imports Http_Reply
begin

text \<open>
  \<open>internal/httpapi/catalogue.go\<close> and \<open>handoff.go\<close>: the routes the explorer shows, each with the rule
  that covers it, and the link to the page that issues a key with the rules picked. A decoded
  body is the argument, \<open>None\<close> where the JSON decoder refuses it.
\<close>

section \<open>The catalogue\<close>

record catalogue_route =
  ct_path :: string
  ct_rule :: string
  ct_wildcard :: bool
  ct_operations :: "operation list"

record catalogue_answer =
  ca_live :: bool
  ca_taken :: time
  ca_branches :: "string list"
  ca_routes :: "catalogue_route list"

definition catalogue :: "'s server \<Rightarrow> ('s, catalogue_answer response) op" where
  "catalogue srv s =
     (let snapshot = sv_catalog srv s in
      (Answered 200
         \<lparr>ca_live = sn_live snapshot, ca_taken = sn_taken snapshot, ca_branches = sn_branches snapshot,
          ca_routes = map (\<lambda>route.
            \<lparr>ct_path = rt_path route, ct_rule = RulePath (rt_path route),
             ct_wildcard = Parameterised (rt_path route), ct_operations = rt_operations route\<rparr>)
            (sn_routes snapshot)\<rparr>, s))"

section \<open>The handoff\<close>

definition methodsAllowed :: "string list" where
  "methodsAllowed = [''DELETE'', ''GET'', ''PATCH'', ''POST'', ''PUT'']"

definition codeMalformedRule :: string where "codeMalformedRule = ''malformed-rule''"
definition codeNoRules :: string where "codeNoRules = ''no-rules''"

fun read_rules :: "access_rule list \<Rightarrow> (nat \<times> string) + access_rule list" where
  "read_rules [] = Inr []"
| "read_rules (rule # sent) =
     (let method = to_upper (trim_space (rule_method rule)); path = trim_space (rule_path rule) in
      if method \<notin> set methodsAllowed \<or> \<not> has_prefix path ''/'' then Inl (400, codeMalformedRule)
      else (case read_rules sent of
              Inl refusal \<Rightarrow> Inl refusal
            | Inr rules \<Rightarrow> Inr (mk_rule method path # rules)))"

definition readRules :: "access_rule list \<Rightarrow> (nat \<times> string) + access_rule list" where
  "readRules sent = (if sent = [] then Inl (400, codeNoRules) else read_rules sent)"

definition handoff ::
  "(string \<Rightarrow> string option) \<Rightarrow> 's server \<Rightarrow> access_rule list option \<Rightarrow> ('s, string response) op" where
  "handoff sdk_endpoints srv body s =
     ((case body of
         None \<Rightarrow> Refused 400 codeMalformedRule []
       | Some sent \<Rightarrow>
           (case readRules sent of
              Inl (status, c) \<Rightarrow> Refused status c []
            | Inr rules \<Rightarrow>
                (case CreateTokenURL sdk_endpoints (sv_endpoint srv) rules of
                   Inl e \<Rightarrow> fail_with (Some e)
                 | Inr page \<Rightarrow> Answered 200 page))), s)"

definition picked_rule :: "access_rule \<Rightarrow> access_rule" where
  "picked_rule r = mk_rule (to_upper (trim_space (rule_method r))) (trim_space (rule_path r))"

definition accepted_rule :: "access_rule \<Rightarrow> bool" where
  "accepted_rule r \<longleftrightarrow> rule_method r \<in> set methodsAllowed \<and> has_prefix (rule_path r) ''/''"

lemma read_rules_Cons:
  "read_rules (r # sent) =
     (if \<not> accepted_rule (picked_rule r) then Inl (400, codeMalformedRule)
      else (case read_rules sent of
              Inl refusal \<Rightarrow> Inl refusal
            | Inr rules \<Rightarrow> Inr (picked_rule r # rules)))"
  unfolding read_rules.simps Let_def accepted_rule_def picked_rule_def
  by (simp only: access_rule.select_convs de_Morgan_conj)

declare read_rules.simps(2) [simp del]

lemma read_rules_iff:
  "read_rules sent = Inr rules \<longleftrightarrow> rules = map picked_rule sent \<and> list_all accepted_rule rules"
proof (induction sent arbitrary: rules)
  case (Cons r sent)
  show ?case
  proof (cases "read_rules sent")
    case (Inl e)
    with Cons.IH [of "map picked_rule sent"] have "\<not> list_all accepted_rule (map picked_rule sent)"
      by simp
    with Inl show ?thesis
      by (auto simp: read_rules_Cons simp del: list.pred_map)
  next
    case (Inr rs)
    with Cons.IH [of rs] have rs: "rs = map picked_rule sent" "list_all accepted_rule rs" by blast+
    show ?thesis
      unfolding read_rules_Cons Inr using rs(2) unfolding rs(1)
      by (cases "accepted_rule (picked_rule r)") (auto simp del: list.pred_map)
  qed
qed auto

definition query_of :: "string \<Rightarrow> string" where
  "query_of url = (case index_of url ''?'' of None \<Rightarrow> [] | Some n \<Rightarrow> drop (Suc n) url)"

lemma query_of_after: "CHR ''?'' \<notin> set u \<Longrightarrow> query_of (u @ CHR ''?'' # q) = q"
proof -
  assume "CHR ''?'' \<notin> set u"
  then have "index_of (u @ CHR ''?'' # q) ''?'' = Some (length u)" by (induction u) auto
  then show ?thesis by (simp add: query_of_def)
qed

lemma parse_base_parts:
  "parse_base base = Inr (scheme, host) \<Longrightarrow> set scheme \<subseteq> set base \<and> set host \<subseteq> set base"
  by (auto simp: parse_base_def split: option.splits dest: in_set_takeD set_takeWhileD in_set_dropD)

text \<open>
  C31: The link of a handoff carries the rules the reader picked and no others. When it is
  answered, every rule names a method the API knows and a path from the root, and reading the
  query of the link back gives each picked rule in order, its method in upper case and both
  trimmed, on the page of the configured endpoint.
\<close>

theorem handoff_carries_rules:
  assumes "fst (handoff sdk_endpoints srv (Some sent) s) = Answered n page"
    and "sdk_endpoints (sv_endpoint srv) = Some base" "CHR ''?'' \<notin> set base"
  shows "decode_query (query_of page) =
           map (\<lambda>r. (to_upper (trim_space (rule_method r)), trim_space (rule_path r))) sent \<and>
         (\<forall>r \<in> set sent. to_upper (trim_space (rule_method r)) \<in> set methodsAllowed \<and>
            has_prefix (trim_space (rule_path r)) ''/'')"
proof -
  obtain rules where rules: "readRules sent = Inr rules"
    and page: "CreateTokenURL sdk_endpoints (sv_endpoint srv) rules = Inr page"
    using assms(1) by (auto simp: handoff_def fail_with_def split: sum.splits if_splits)
  have sent: "sent \<noteq> []" and read: "read_rules sent = Inr rules"
    using rules by (auto simp: readRules_def split: if_splits)
  note parts = read [unfolded read_rules_iff]
  then have "rules \<noteq> []" using sent by simp
  then obtain scheme host where base: "parse_base base = Inr (scheme, host)"
    and url: "page = (scheme @ ''://'' @ host @ ''/createToken/'') @ CHR ''?'' # token_query rules"
    using page assms(2) by (auto simp: CreateTokenURL_def endpointURL_def split: sum.splits if_splits)
  have "CHR ''?'' \<notin> set (scheme @ ''://'' @ host @ ''/createToken/'')"
    using parse_base_parts [OF base] assms(3) by auto
  then have "query_of page = token_query rules" unfolding url by (rule query_of_after)
  then have "decode_query (query_of page) = map (\<lambda>r. (rule_method r, rule_path r)) rules"
    by (simp add: decode_query_token)
  with parts show ?thesis by (auto simp: list_all_iff picked_rule_def accepted_rule_def)
qed

end
