(* ===== verification/Http_Server.thy ===== *)
theory Http_Server
  imports Http_Applications Http_Inventory Http_Explorer
begin

text \<open>
  \<open>internal/httpapi/server.go\<close>, \<open>auth.go\<close>, \<open>csrf.go\<close>, \<open>session.go\<close> and \<open>health.go\<close>: what the server is
  built from, the session, and the path of a request through the access token, the token of the
  page and the router, down to the handler. A request carries its path as sent, its query and
  body as Go decodes them, and the two tokens. The router follows \<open>http.ServeMux\<close>: a path that is
  not clean is redirected, \<open>GET\<close> patterns also take \<open>HEAD\<close>, and a method no pattern takes is
  refused, the pattern \<open>GET /\<close> matching every path. Request logging is left out.
\<close>

section \<open>Building the server\<close>

record 's options =
  opt_provider :: "'s provider"
  opt_resolver :: "'s resolver"
  opt_catalog :: "'s \<Rightarrow> snapshot"
  opt_token :: string
  opt_csrf :: string
  opt_endpoint :: string
  opt_version :: string
  opt_secure_cookie :: bool

definition link_or_blank :: "err + string \<Rightarrow> string" where
  "link_or_blank r = (case r of Inl _ \<Rightarrow> [] | Inr link \<Rightarrow> link)"

definition New :: "(string \<Rightarrow> string option) \<Rightarrow> 's options \<Rightarrow> 's server" where
  "New sdk_endpoints opts =
     \<lparr>sv_provider = opt_provider opts, sv_resolver = opt_resolver opts, sv_catalog = opt_catalog opts,
      sv_token = opt_token opts, sv_csrf = opt_csrf opts, sv_endpoint = opt_endpoint opts,
      sv_version = opt_version opts,
      sv_management_key_url = link_or_blank (CreateTokenURL sdk_endpoints (opt_endpoint opts) ManagementRules),
      sv_address_key_url = link_or_blank (CreateTokenURL sdk_endpoints (opt_endpoint opts) UsableRules),
      sv_secure_cookie = opt_secure_cookie opts\<rparr>"

section \<open>Session\<close>

record session_answer =
  se_endpoint :: string
  se_version :: string
  se_csrf :: string
  se_address_lookup :: bool
  se_management_key_url :: string
  se_address_key_url :: string
  se_sensitive :: "branch list"

definition session :: "'s server \<Rightarrow> session_answer response" where
  "session srv =
     Answered 200
       \<lparr>se_endpoint = sv_endpoint srv, se_version = sv_version srv, se_csrf = sv_csrf srv,
        se_address_lookup = rs_enabled (sv_resolver srv),
        se_management_key_url = sv_management_key_url srv,
        se_address_key_url = sv_address_key_url srv, se_sensitive = SensitiveBranches\<rparr>"

section \<open>Requests\<close>

record http_request =
  hr_method :: string
  hr_raw_path :: string
  hr_query :: "(string \<times> string) list"
  hr_cookie :: "string option"
  hr_csrf :: string
  hr_addresses :: "string list option"
  hr_rules :: "access_rule list option"

fun path_unescape :: "string \<Rightarrow> string" where
  "path_unescape (c # h # l # s) =
     (if c = CHR ''%'' then
        (case (hex_val h, hex_val l) of
           (Some a, Some b) \<Rightarrow> char_of (a * 16 + b) # path_unescape s
         | _ \<Rightarrow> c # path_unescape (h # l # s))
      else c # path_unescape (h # l # s))"
| "path_unescape (c # s) = c # path_unescape s"
| "path_unescape [] = []"

definition url_path :: "http_request \<Rightarrow> string" where
  "url_path r = path_unescape (hr_raw_path r)"

text \<open>\<open>path.Clean\<close> on a rooted path, and the router's \<open>cleanPath\<close> over it.\<close>

fun clean_segments :: "string list \<Rightarrow> string list \<Rightarrow> string list" where
  "clean_segments kept [] = rev kept"
| "clean_segments kept (seg # segs) =
     (if seg = [] \<or> seg = ''.'' then clean_segments kept segs
      else if seg = ''..'' then clean_segments (drop 1 kept) segs
      else clean_segments (seg # kept) segs)"

definition path_clean :: "string \<Rightarrow> string" where
  "path_clean p = CHR ''/'' # join_with ''/'' (clean_segments [] (split_char (CHR ''/'') p))"

definition clean_path :: "string \<Rightarrow> string" where
  "clean_path p =
     (if p = [] then ''/''
      else (let rooted = (if has_prefix p ''/'' then p else CHR ''/'' # p);
                np = path_clean rooted
            in if has_suffix rooted ''/'' \<and> np \<noteq> ''/'' then np @ ''/'' else np))"

definition path_segments :: "string \<Rightarrow> string list" where
  "path_segments p = map path_unescape (tl (split_char (CHR ''/'') p))"

section \<open>Routes\<close>

datatype target =
    ToHealth
  | ToSession
  | ToInventory
  | ToCatalogue
  | ToApplications
  | ToDeleteApplication string
  | ToDeleteKeyless
  | ToRevoke string
  | ToRevokeInactive
  | ToRetire
  | ToPreviewAddresses string
  | ToSetAddresses string
  | ToPublicAddress
  | ToHandoff
  | ToAssets

definition get_method :: "string \<Rightarrow> bool" where
  "get_method m \<longleftrightarrow> m = ''GET'' \<or> m = ''HEAD''"

definition wildcard_segment :: "string \<Rightarrow> bool" where
  "wildcard_segment seg \<longleftrightarrow> seg \<noteq> [] \<and> seg \<noteq> ''/''"

definition get_target :: "string list \<Rightarrow> target" where
  "get_target segs =
     (if segs = [''healthz''] then ToHealth
      else if segs = [''api'', ''session''] then ToSession
      else if segs = [''api'', ''inventory''] then ToInventory
      else if segs = [''api'', ''catalogue''] then ToCatalogue
      else if segs = [''api'', ''applications''] then ToApplications
      else if segs = [''api'', ''address''] then ToPublicAddress
      else ToAssets)"

definition delete_target :: "string list \<Rightarrow> target option" where
  "delete_target segs =
     (case segs of
        [a, b, i] \<Rightarrow>
          if a = ''api'' \<and> b = ''applications'' \<and> wildcard_segment i then Some (ToDeleteApplication i)
          else if a = ''api'' \<and> b = ''credentials'' \<and> wildcard_segment i then Some (ToRevoke i)
          else None
      | _ \<Rightarrow> None)"

definition post_target :: "string list \<Rightarrow> target option" where
  "post_target segs =
     (if segs = [''api'', ''applications'', ''keyless'', ''deletions''] then Some ToDeleteKeyless
      else if segs = [''api'', ''credentials'', ''inactive'', ''revocations''] then Some ToRevokeInactive
      else if segs = [''api'', ''credentials'', ''current'', ''retirement''] then Some ToRetire
      else if segs = [''api'', ''handoff''] then Some ToHandoff
      else (case segs of
          [a, b, i, c, d] \<Rightarrow>
            if a = ''api'' \<and> b = ''credentials'' \<and> c = ''addresses'' \<and> d = ''preview'' \<and> wildcard_segment i
            then Some (ToPreviewAddresses i) else None
        | _ \<Rightarrow> None))"

definition put_target :: "string list \<Rightarrow> target option" where
  "put_target segs =
     (case segs of
        [a, b, i, c] \<Rightarrow>
          if a = ''api'' \<and> b = ''credentials'' \<and> c = ''addresses'' \<and> wildcard_segment i
          then Some (ToSetAddresses i) else None
      | _ \<Rightarrow> None)"

definition route_of :: "string \<Rightarrow> string list \<Rightarrow> target option" where
  "route_of method segs =
     (if get_method method then Some (get_target segs)
      else if method = ''DELETE'' then delete_target segs
      else if method = ''POST'' then post_target segs
      else if method = ''PUT'' then put_target segs
      else None)"

section \<open>Answers\<close>

datatype body =
    HealthBody
  | SessionBody session_answer
  | InventoryBody inventory_answer
  | CatalogueBody catalogue_answer
  | ApplicationsBody applications_answer
  | SweepBody sweep
  | RetirementBody retirement
  | AddressesBody addresses_answer
  | AddressBody string
  | HandoffBody string
  | AssetBody string
  | NoContent

datatype outcome =
    Unauthorized
  | Granted (cookie_value: string) (cookie_secure: bool) (location: string)
  | Moved string
  | NotAllowed
  | Served "body response"

definition served :: "('a \<Rightarrow> body) \<Rightarrow> ('s, 'a response) op \<Rightarrow> ('s, outcome) op" where
  "served wrap handler s = (let (r, s') = handler s in (Served (map_response wrap r), s'))"

definition run_target ::
  "(string \<Rightarrow> string option) \<Rightarrow> 's server \<Rightarrow> time \<Rightarrow> http_request \<Rightarrow> target \<Rightarrow> ('s, outcome) op" where
  "run_target sdk_endpoints srv now r t =
     (case t of
        ToHealth \<Rightarrow> (\<lambda>s. (Served (Answered 200 HealthBody), s))
      | ToSession \<Rightarrow> (\<lambda>s. (Served (map_response SessionBody (session srv)), s))
      | ToInventory \<Rightarrow> served InventoryBody (inventory srv now)
      | ToCatalogue \<Rightarrow> served CatalogueBody (catalogue srv)
      | ToApplications \<Rightarrow> served ApplicationsBody (applications srv)
      | ToDeleteApplication i \<Rightarrow> served (\<lambda>_. NoContent) (deleteApplication srv i)
      | ToDeleteKeyless \<Rightarrow> served SweepBody (deleteKeylessApplications srv)
      | ToRevoke i \<Rightarrow> served (\<lambda>_. NoContent) (revoke srv i)
      | ToRevokeInactive \<Rightarrow> served SweepBody (revokeInactive srv)
      | ToRetire \<Rightarrow> served RetirementBody (retire srv)
      | ToPreviewAddresses i \<Rightarrow> served AddressesBody (previewAddresses srv i (hr_addresses r))
      | ToSetAddresses i \<Rightarrow> served AddressesBody (setAddresses srv i (hr_addresses r))
      | ToPublicAddress \<Rightarrow> served AddressBody (publicAddress srv)
      | ToHandoff \<Rightarrow> served HandoffBody (handoff sdk_endpoints srv (hr_rules r))
      | ToAssets \<Rightarrow> (\<lambda>s. (Served (Answered 200 (AssetBody (url_path r))), s)))"

section \<open>The way in\<close>

definition mux_pattern :: "http_request \<Rightarrow> target option" where
  "mux_pattern r = route_of (hr_method r) (path_segments (clean_path (hr_raw_path r)))"

definition mux_serve ::
  "(string \<Rightarrow> string option) \<Rightarrow> 's server \<Rightarrow> time \<Rightarrow> http_request \<Rightarrow> ('s, outcome) op" where
  "mux_serve sdk_endpoints srv now r s =
     (if hr_method r \<noteq> ''CONNECT'' \<and> clean_path (hr_raw_path r) \<noteq> hr_raw_path r
      then (Moved (clean_path (hr_raw_path r)), s)
      else case mux_pattern r of
          None \<Rightarrow> (NotAllowed, s)
        | Some t \<Rightarrow> run_target sdk_endpoints srv now r t s)"

definition guardMutations ::
  "(string \<Rightarrow> string option) \<Rightarrow> 's server \<Rightarrow> time \<Rightarrow> http_request \<Rightarrow> ('s, outcome) op" where
  "guardMutations sdk_endpoints srv now r s =
     (if hr_method r \<in> {''GET'', ''HEAD'', ''OPTIONS''} then mux_serve sdk_endpoints srv now r s
      else if mux_pattern r = None then mux_serve sdk_endpoints srv now r s
      else if hr_csrf r \<noteq> sv_csrf srv then (Served (Refused 403 codeMissingToken []), s)
      else mux_serve sdk_endpoints srv now r s)"

definition healthPath :: string where "healthPath = ''/healthz''"

definition tokenParameter :: string where "tokenParameter = ''token''"

definition tokenMatches :: "'s server \<Rightarrow> string \<Rightarrow> bool" where
  "tokenMatches srv candidate \<longleftrightarrow> candidate = sv_token srv"

text \<open>\<open>Values.Get\<close>: the first value of a key, or nothing.\<close>

definition query_get :: "(string \<times> string) list \<Rightarrow> string \<Rightarrow> string" where
  "query_get q k = (case map_of q k of None \<Rightarrow> [] | Some v \<Rightarrow> v)"

text \<open>\<open>Values.Encode\<close>: by key, the values of a key in order.\<close>

definition encode_values :: "(string \<times> string) list \<Rightarrow> string" where
  "encode_values q =
     join_with ''&'' (map (\<lambda>(k, v). query_escape k @ ''='' @ query_escape v) (sort_key fst q))"

definition escape_path :: "string \<Rightarrow> string" where
  "escape_path p =
     concat (map (\<lambda>b. if ascii_alnum b \<or> b \<in> set ''-_.~$&+,/:;=@'' then [b] else percent b) p)"

definition redirect_target :: "http_request \<Rightarrow> string" where
  "redirect_target r =
     (let path = url_path r in
      if has_prefix path ''/'' \<and> \<not> has_prefix path ''//'' \<and> \<not> has_prefix path [CHR ''/'', CHR 0x5C]
      then path else ''/'')"

text \<open>\<open>http.Redirect\<close> cleans the path of the location it is given.\<close>

definition redirect_location :: "string \<Rightarrow> (string \<times> string) list \<Rightarrow> string" where
  "redirect_location path query =
     clean_path (escape_path path) @
     (if encode_values query = [] then [] else CHR ''?'' # encode_values query)"

definition grant :: "'s server \<Rightarrow> http_request \<Rightarrow> outcome" where
  "grant srv r =
     Granted (sv_token srv) (sv_secure_cookie srv)
       (redirect_location (redirect_target r) (filter (\<lambda>(k, _). k \<noteq> tokenParameter) (hr_query r)))"

definition authenticate ::
  "(string \<Rightarrow> string option) \<Rightarrow> 's server \<Rightarrow> time \<Rightarrow> http_request \<Rightarrow> ('s, outcome) op" where
  "authenticate sdk_endpoints srv now r s =
     (if url_path r = healthPath then guardMutations sdk_endpoints srv now r s
      else if (case hr_cookie r of None \<Rightarrow> False | Some v \<Rightarrow> tokenMatches srv v)
      then guardMutations sdk_endpoints srv now r s
      else if tokenMatches srv (query_get (hr_query r) tokenParameter) then (grant srv r, s)
      else (Unauthorized, s))"

definition contentSecurityPolicy :: string where
  "contentSecurityPolicy =
     ''default-src 'none'; '' @ ''script-src 'self'; '' @ ''style-src 'self'; '' @
     ''img-src 'self' data:; '' @ ''connect-src 'self'; '' @ ''base-uri 'none'; '' @
     ''form-action 'none'; '' @ ''frame-ancestors '' @ [CHR 0x27] @ ''none'' @ [CHR 0x27]"

definition securityHeaders :: "(string \<times> string) list" where
  "securityHeaders =
     [(''Content-Security-Policy'', contentSecurityPolicy),
      (''X-Content-Type-Options'', ''nosniff''),
      (''Referrer-Policy'', ''no-referrer''),
      (''X-Frame-Options'', ''DENY'')]"

text \<open>The handler \<open>New\<close> returns: every answer carries the security headers.\<close>

definition handle ::
  "(string \<Rightarrow> string option) \<Rightarrow> 's server \<Rightarrow> time \<Rightarrow> http_request \<Rightarrow>
   ('s, (string \<times> string) list \<times> outcome) op" where
  "handle sdk_endpoints srv now r s =
     (let (o', s') = authenticate sdk_endpoints srv now r s in ((securityHeaders, o'), s'))"

section \<open>What a request may do\<close>

lemma served_state [simp]: "snd (served wrap handler s) = snd (handler s)"
  by (simp add: served_def Let_def split_beta)

lemma catalogue_state [simp]: "snd (catalogue srv s) = s"
  by (simp add: catalogue_def Let_def)

lemma handoff_state [simp]: "snd (handoff sdk_endpoints srv body s) = s"
  by (simp add: handoff_def)

definition reading_target :: "target \<Rightarrow> bool" where
  "reading_target t \<longleftrightarrow>
     (case t of
        ToDeleteApplication _ \<Rightarrow> False | ToDeleteKeyless \<Rightarrow> False | ToRevoke _ \<Rightarrow> False
      | ToRevokeInactive \<Rightarrow> False | ToRetire \<Rightarrow> False | ToSetAddresses _ \<Rightarrow> False | _ \<Rightarrow> True)"

lemma get_target_reading: "reading_target (get_target segs)"
  by (simp add: get_target_def reading_target_def)

lemma mux_pattern_get: "get_method (hr_method r) \<Longrightarrow> mux_pattern r = Some (get_target (path_segments (clean_path (hr_raw_path r))))"
  by (simp add: mux_pattern_def route_of_def)

lemma mux_serve_cases:
  "(\<exists>o'. mux_serve sdk_endpoints srv now r s = (o', s) \<and> o' \<in> range Moved \<union> {NotAllowed}) \<or>
   (\<exists>t. mux_pattern r = Some t \<and>
      mux_serve sdk_endpoints srv now r s = run_target sdk_endpoints srv now r t s)"
  by (auto simp: mux_serve_def split: option.split)

lemma guard_state:
  assumes "hr_csrf r \<noteq> sv_csrf srv" "\<not> get_method (hr_method r)"
  shows "snd (guardMutations sdk_endpoints srv now r s) = s"
proof (cases "hr_method r = ''OPTIONS''")
  case True
  then have "mux_pattern r = None" by (simp add: mux_pattern_def route_of_def get_method_def)
  with True show ?thesis by (simp add: guardMutations_def mux_serve_def)
next
  case False
  then show ?thesis
    using assms by (simp add: guardMutations_def get_method_def mux_serve_def)
qed

text \<open>A request changes the state through the one handler it is routed to, or not at all.\<close>

lemma handle_runs:
  "snd (handle sdk_endpoints srv now r s) = s \<or>
   (\<exists>t. mux_pattern r = Some t \<and>
      snd (handle sdk_endpoints srv now r s) = snd (run_target sdk_endpoints srv now r t s))"
proof -
  have "snd (mux_serve sdk_endpoints srv now r s) = s \<or>
     (\<exists>t. mux_pattern r = Some t \<and>
        snd (mux_serve sdk_endpoints srv now r s) = snd (run_target sdk_endpoints srv now r t s))"
    using mux_serve_cases [of sdk_endpoints srv now r s] by auto
  then show ?thesis
    by (auto simp: handle_def authenticate_def guardMutations_def Let_def split_beta split: option.splits)
qed

section \<open>Sequences of requests\<close>

text \<open>The states a server goes through while it handles requests of one kind, in any order.\<close>

inductive requests ::
  "(string \<Rightarrow> string option) \<Rightarrow> 's server \<Rightarrow> (http_request \<Rightarrow> bool) \<Rightarrow> 's \<Rightarrow> 's \<Rightarrow> bool"
  for sdk_endpoints :: "string \<Rightarrow> string option" and srv :: "'s server" and kind :: "http_request \<Rightarrow> bool"
  where
    none: "requests sdk_endpoints srv kind s s"
  | next_one: "requests sdk_endpoints srv kind s t \<Longrightarrow> kind r \<Longrightarrow>
      requests sdk_endpoints srv kind s (snd (handle sdk_endpoints srv now r t))"

text \<open>What every request of the kind keeps, a sequence of them keeps.\<close>

lemma requests_keep:
  assumes "requests sdk_endpoints srv kind s t" "Q s"
    and "\<And>t r now. Q t \<Longrightarrow> kind r \<Longrightarrow> Q (snd (handle sdk_endpoints srv now r t))"
  shows "Q t"
  using assms by (induction rule: requests.induct) auto

text \<open>The effects a request names, by the handler it is routed to and what it carries.\<close>

definition asks :: "http_request \<Rightarrow> effect \<Rightarrow> bool" where
  "asks r e \<longleftrightarrow>
     (case mux_pattern r of
        Some (ToDeleteApplication p) \<Rightarrow> (\<exists>i. parse_int64 p = Some i \<and> e = DeleteApp i)
      | Some ToDeleteKeyless \<Rightarrow> (\<exists>i. e = DeleteApp i)
      | Some (ToRevoke p) \<Rightarrow> (\<exists>i. parse_int64 p = Some i \<and> e = RevokeKey i)
      | Some ToRevokeInactive \<Rightarrow> (\<exists>i. e = RevokeKey i)
      | Some ToRetire \<Rightarrow> e = ExpireKeyInUse \<or> (\<exists>i. e = RevokeKey i)
      | Some (ToSetAddresses p) \<Rightarrow>
          (\<exists>i sent ps. hr_addresses r = Some sent \<and> readAddresses sent = Inr ps \<and> e = RewriteAddresses i ps)
      | _ \<Rightarrow> False)"

text \<open>With the two tokens; a read by its method carries the authority for no effect.\<close>

definition authorised :: "'s server \<Rightarrow> http_request \<Rightarrow> bool" where
  "authorised srv r \<longleftrightarrow>
     hr_cookie r = Some (sv_token srv) \<and> hr_csrf r = sv_csrf srv \<and> \<not> get_method (hr_method r)"

section \<open>The health endpoint and nothing else\<close>

lemma unescape_slash: "path_unescape (CHR ''/'' # p) = CHR ''/'' # path_unescape p"
  by (cases p rule: path_unescape.cases) simp_all

lemma unescape_keeps_slash: "CHR ''/'' \<in> set p \<Longrightarrow> CHR ''/'' \<in> set (path_unescape p)"
proof (induction p rule: path_unescape.induct)
  case (1 c h l s)
  have slash: "hex_val (CHR ''/'') = None" by code_simp
  show ?case
  proof (cases "c = CHR ''%'' \<and> (\<exists>a b. hex_val h = Some a \<and> hex_val l = Some b)")
    case True
    then obtain a b where ab: "c = CHR ''%''" "hex_val h = Some a" "hex_val l = Some b" by blast
    then have "CHR ''/'' \<in> set s" using "1.prems" slash by auto
    with "1.IH"(3) [OF ab(1) refl] ab show ?thesis by simp
  next
    case False
    then show ?thesis using "1.prems" "1.IH"(1,2,4) by (auto split: option.splits)
  qed
qed auto

lemma clean_path_rooted: "\<exists>rest. clean_path p = CHR ''/'' # rest"
  by (auto simp: clean_path_def path_clean_def Let_def)

lemma health_segments:
  assumes "path_unescape (CHR ''/'' # p) = healthPath"
  shows "clean_path (CHR ''/'' # p) = CHR ''/'' # p" "path_segments (CHR ''/'' # p) = [''healthz'']"
proof -
  have p: "path_unescape p = ''healthz''" using assms by (simp add: unescape_slash healthPath_def)
  then have slash: "CHR ''/'' \<notin> set p" using unescape_keeps_slash [of p] by auto
  then have pieces: "split_char (CHR ''/'') (CHR ''/'' # p) = [[], p]"
    by (simp add: split_char_no_sep)
  have "p \<noteq> []" "p \<noteq> ''.''" "p \<noteq> ''..''" using p by auto
  then have "path_clean (CHR ''/'' # p) = CHR ''/'' # p"
    by (simp add: path_clean_def split_char_no_sep [OF slash])
  moreover have "\<not> has_suffix (CHR ''/'' # p) ''/''"
    using \<open>p \<noteq> []\<close> slash by (cases p rule: rev_cases) (auto simp: has_suffix_iff)
  ultimately show "clean_path (CHR ''/'' # p) = CHR ''/'' # p" by (simp add: clean_path_def Let_def)
  show "path_segments (CHR ''/'' # p) = [''healthz'']"
    unfolding path_segments_def pieces using p by simp
qed

definition health_outcomes :: "outcome set" where
  "health_outcomes =
     {Served (Answered 200 HealthBody), Served (Refused 403 codeMissingToken []), NotAllowed} \<union> range Moved"

lemma short_routes: "\<not> get_method m \<Longrightarrow> route_of m [x] = None"
  by (simp add: route_of_def delete_target_def post_target_def put_target_def)

lemma health_only:
  assumes "url_path r = healthPath"
  shows "\<exists>o' \<in> health_outcomes. guardMutations sdk_endpoints srv now r s = (o', s)"
proof (cases "hr_raw_path r")
  case Nil
  then show ?thesis using assms by (simp add: url_path_def healthPath_def)
next
  case (Cons c p)
  have mux: "\<exists>o' \<in> health_outcomes. mux_serve sdk_endpoints srv now r s = (o', s)"
  proof (cases "c = CHR ''/''")
    case True
    with assms Cons have "path_unescape (CHR ''/'' # p) = healthPath" by (simp add: url_path_def)
    note segs = health_segments [OF this]
    have "mux_pattern r = (if get_method (hr_method r) then Some ToHealth else None)"
      using Cons True segs by (simp add: mux_pattern_def short_routes) (simp add: route_of_def get_target_def)
    with Cons True segs show ?thesis
      by (simp add: mux_serve_def health_outcomes_def run_target_def)
  next
    case False
    then have "clean_path (hr_raw_path r) \<noteq> hr_raw_path r"
      using clean_path_rooted [of "hr_raw_path r"] Cons by auto
    moreover have "route_of ''CONNECT'' segs = None" for segs by (simp add: route_of_def get_method_def)
    ultimately show ?thesis
      by (auto simp: mux_serve_def health_outcomes_def mux_pattern_def)
  qed
  then show ?thesis by (auto simp: guardMutations_def health_outcomes_def)
qed

section \<open>Where a grant redirects\<close>

lemma clean_segments_pieces:
  "x \<in> set (clean_segments kept segs) \<Longrightarrow> x \<in> set kept \<or> (x \<in> set segs \<and> x \<noteq> [])"
proof (induction kept segs rule: clean_segments.induct)
  case (2 kept seg segs)
  then show ?case by (auto split: if_splits dest: in_set_dropD)
qed simp

definition stays_local :: "string \<Rightarrow> bool" where
  "stays_local url \<longleftrightarrow>
     (\<exists>rest. url = CHR ''/'' # rest \<and> \<not> has_prefix rest ''/'' \<and> \<not> has_prefix rest [CHR 0x5C])"

lemma hex_upper_plain: "d < 16 \<Longrightarrow> hex_upper d \<noteq> CHR 0x5C"
  using hex_val_upper [of d] by (auto simp: hex_val_def is_digit_def less_eq_char_def)

lemma escape_path_no_backslash: "CHR 0x5C \<notin> set (escape_path p)"
proof -
  have "CHR 0x5C \<notin> set (percent b)" for b
    using hex_upper_plain [of "of_char b div 16"] hex_upper_plain [of "of_char b mod 16"]
    by (auto simp: percent_def)
  then show ?thesis by (auto simp: escape_path_def ascii_alnum_def is_digit_def less_eq_char_def)
qed

lemma path_clean_local:
  assumes "CHR 0x5C \<notin> set p"
  shows "\<exists>rest. path_clean p = CHR ''/'' # rest \<and> (rest = [] \<or> hd rest \<notin> {CHR ''/'', CHR 0x5C})"
proof (cases "clean_segments [] (split_char (CHR ''/'') p)")
  case Nil
  then show ?thesis by (simp add: path_clean_def)
next
  case (Cons x xs)
  have pieces: "x \<in> set (split_char (CHR ''/'') p)" "x \<noteq> []"
    using clean_segments_pieces [of x "[]" "split_char (CHR ''/'') p"] Cons by auto
  have "set x \<subseteq> set p"
    using pieces(1) join_split_char [of "CHR ''/''" p] set_split_char by blast
  moreover have "CHR ''/'' \<notin> set x" using pieces(1) by (rule split_char_pieces)
  moreover obtain y ys where "x = y # ys" using pieces(2) by (cases x) auto
  ultimately show ?thesis
    using assms Cons by (cases xs) (auto simp: path_clean_def)
qed

lemma clean_path_local:
  assumes "CHR 0x5C \<notin> set p" "q = [] \<or> hd q \<notin> {CHR ''/'', CHR 0x5C}"
  shows "stays_local (clean_path p @ q)"
proof -
  let ?rooted = "if has_prefix p ''/'' then p else CHR ''/'' # p"
  have "CHR 0x5C \<notin> set ?rooted" using assms(1) by simp
  from path_clean_local [OF this] obtain rest where rest:
    "path_clean ?rooted = CHR ''/'' # rest" "rest = [] \<or> hd rest \<notin> {CHR ''/'', CHR 0x5C}" by blast
  then have "\<exists>rest'. clean_path p = CHR ''/'' # rest' \<and> (rest' = [] \<or> hd rest' \<notin> {CHR ''/'', CHR 0x5C})"
    by (cases rest) (auto simp: clean_path_def Let_def)
  then obtain rest' where "clean_path p = CHR ''/'' # rest'" "rest' = [] \<or> hd rest' \<notin> {CHR ''/'', CHR 0x5C}"
    by blast
  then show ?thesis
    using assms(2) by (cases rest'; cases q) (auto simp: stays_local_def)
qed

lemma redirect_location_local: "stays_local (redirect_location path query)"
  unfolding redirect_location_def
  by (rule clean_path_local) (simp_all add: escape_path_no_backslash)

text \<open>The query of the redirection is the rest of the query it came with.\<close>

definition query_pair :: "string \<times> string \<Rightarrow> string" where
  "query_pair p = query_escape (fst p) @ ''='' @ query_escape (snd p)"

lemma encode_values_pairs: "encode_values q = join_with ''&'' (map query_pair (sort_key fst q))"
proof -
  have "query_pair = (\<lambda>(k, v). query_escape k @ ''='' @ query_escape v)"
    by (auto simp: query_pair_def fun_eq_iff)
  then show ?thesis by (simp only: encode_values_def)
qed

lemma decode_encode_values: "decode_query (encode_values q) = sort_key fst q"
proof (cases "q = []")
  case False
  then have pieces: "map query_pair (sort_key fst q) \<noteq> []"
    by (metis length_0_conv length_map length_sort)
  have amp: "\<forall>x \<in> set (map query_pair (sort_key fst q)). CHR ''&'' \<notin> set x"
    by (auto simp: query_pair_def escapes_no_sep)
  have "cut_char (CHR ''='') (query_pair p) = Some (query_escape (fst p), query_escape (snd p))" for p
    by (simp add: cut_char_Some query_pair_def escapes_no_sep)
  moreover have "encode_values q \<noteq> []"
  proof -
    obtain x xs where x: "map query_pair (sort_key fst q) = x # xs"
      using pieces by (meson list.exhaust)
    then have "x \<in> set (map query_pair (sort_key fst q))" by simp
    then have "x \<noteq> []" by (auto simp: query_pair_def)
    with x show ?thesis by (cases xs) (simp_all add: encode_values_pairs)
  qed
  ultimately show ?thesis
    by (simp add: decode_query_def encode_values_pairs split_join [OF pieces amp] comp_def map_idI)
qed (simp add: encode_values_def decode_query_def)

text \<open>A first visit to the front page with the token opens the session and drops the token.\<close>

lemma open_front_page:
  assumes "hr_raw_path r = ''/''" "hr_query r = [(''token'', sv_token srv)]" "hr_cookie r = None"
  shows "handle sdk_endpoints srv now r s =
    ((securityHeaders, Granted (sv_token srv) (sv_secure_cookie srv) ''/''), s)"
proof -
  have "path_unescape ''/'' = ''/''" "clean_path (escape_path ''/'') = ''/''" by code_simp+
  then show ?thesis
    by (simp add: assms handle_def authenticate_def url_path_def healthPath_def tokenMatches_def
        query_get_def tokenParameter_def grant_def redirect_target_def redirect_location_def encode_values_def)
qed

context http_server
begin

lemma publicAddress_only: "only {} s (snd (publicAddress srv s))"
  by (simp add: publicAddress_def Let_def split_beta lookup_frame)

lemma reading_target_only:
  "reading_target t \<Longrightarrow> only {} s (snd (run_target sdk_endpoints srv now r t s))"
  by (cases t) (simp_all add: run_target_def reading_target_def only_refl inventory_only
      applications_only preview_only publicAddress_only)

lemma guard_get_only:
  assumes "get_method (hr_method r)"
  shows "only {} s (snd (guardMutations sdk_endpoints srv now r s))"
proof -
  have "only {} s (snd (mux_serve sdk_endpoints srv now r s))"
    using mux_serve_cases [of sdk_endpoints srv now r s]
    by (auto simp: mux_pattern_get [OF assms] only_refl get_target_reading reading_target_only)
  then show ?thesis using assms by (auto simp: guardMutations_def get_method_def)
qed

lemma guard_reads_without_page_token:
  "hr_csrf r \<noteq> sv_csrf srv \<or> get_method (hr_method r) \<Longrightarrow>
   only {} s (snd (guardMutations sdk_endpoints srv now r s))"
  by (cases "get_method (hr_method r)") (auto simp: guard_get_only guard_state only_refl)

lemma deleteKeyless_deletes: "only {e. \<exists>i. e = DeleteApp i} s (snd (deleteKeylessApplications srv s))"
proof -
  obtain apps e s1 where apps: "pr_applications (sv_provider srv) s = ((apps, e), s1)" by (metis surj_pair)
  obtain cs n e' s2 where keys: "list_credentials srv s1 = ((cs, n, e'), s2)" by (metis surj_pair)
  obtain own s3 where own: "pr_current (sv_provider srv) s2 = (own, s3)" by (metis surj_pair)
  show ?thesis
    by (rule only_mono [OF deleteKeyless_only [OF apps keys own]]) (auto simp: keyless_targets_def)
qed

lemma revokeInactive_revokes: "only {e. \<exists>i. e = RevokeKey i} s (snd (revokeInactive srv s))"
proof -
  obtain own s1 where own: "pr_current (sv_provider srv) s = (own, s1)" by (metis surj_pair)
  obtain cs n e s2 where keys: "list_credentials srv s1 = ((cs, n, e), s2)" by (metis surj_pair)
  show ?thesis
    by (rule only_mono [OF revokeInactive_only [OF own keys]]) (auto simp: swept_targets_def)
qed

lemma run_target_asked:
  assumes "mux_pattern r = Some t"
  shows "only {e. asks r e} s (snd (run_target sdk_endpoints srv now r t s))"
proof (cases "reading_target t")
  case True
  then show ?thesis by (rule only_none [OF reading_target_only])
next
  case False
  have "only {e. \<exists>i. parse_int64 p = Some i \<and> e = DeleteApp i} s (snd (deleteApplication srv p s))" for p
    by (rule only_mono [OF deleteApplication_only]) auto
  moreover have "only {e. \<exists>i. parse_int64 p = Some i \<and> e = RevokeKey i} s (snd (revoke srv p s))" for p
    by (rule only_mono [OF revoke_only]) auto
  moreover have "only {e. e = ExpireKeyInUse \<or> (\<exists>i. e = RevokeKey i)} s (snd (retire srv s))"
    by (rule only_mono [OF retire_only]) auto
  moreover have "only {e. \<exists>i sent ps. hr_addresses r = Some sent \<and> readAddresses sent = Inr ps \<and>
      e = RewriteAddresses i ps} s (snd (addresses srv p (hr_addresses r) True s))" for p
    by (rule only_mono [OF addresses_only]) (auto simp: address_effects_def)
  ultimately show ?thesis
    using False assms deleteKeyless_deletes revokeInactive_revokes
    by (cases t) (simp_all add: run_target_def reading_target_def asks_def setAddresses_def)
qed

lemma handle_asked:
  "only {e. authorised srv r \<and> asks r e} s (snd (handle sdk_endpoints srv now r s))"
proof (cases "authorised srv r")
  case True
  then show ?thesis
    using handle_runs [of sdk_endpoints srv now r s] run_target_asked [of r] only_refl by fastforce
next
  case False
  have "only {} s (snd (handle sdk_endpoints srv now r s))"
  proof (cases "url_path r = healthPath")
    case True
    then show ?thesis
      using health_only [of r sdk_endpoints srv now s] only_refl
      by (fastforce simp: handle_def authenticate_def Let_def split_beta)
  next
    case other: False
    show ?thesis
      using False other guard_reads_without_page_token [of r s sdk_endpoints now]
      by (auto simp: handle_def authenticate_def tokenMatches_def authorised_def Let_def split_beta only_refl
          split: option.splits)
  qed
  then show ?thesis by (rule only_none)
qed

text \<open>Over any requests, in any order: only what an authorised one among them named.\<close>

lemma requests_asked:
  "requests sdk_endpoints srv kind s t \<Longrightarrow> only {e. \<exists>r. kind r \<and> authorised srv r \<and> asks r e} s t"
proof (induction rule: requests.induct)
  case (none s)
  show ?case by (rule only_refl)
next
  case (next_one s t r now)
  have "only {e. \<exists>r. kind r \<and> authorised srv r \<and> asks r e} t (snd (handle sdk_endpoints srv now r t))"
    by (rule only_mono [OF handle_asked]) (use next_one in auto)
  with next_one.IH show ?case by (rule only_trans)
qed

end

end
