(* ===== verification/Live.thy ===== *)
theory Live
  imports Http_Server
begin

text \<open>
  The server as \<open>run\<close> in \<open>cmd/keymaker/main.go\<close> builds it: the handlers over the provider, the
  provider over the API client, the client over the SDK, and the resolver the environment asks
  for. Its surroundings are a record: the SDK with the API behind it, the order of the pools of
  workers, the answer of the address service, the published catalogue, and the tokens drawn at
  startup. The interpretation gives every lemma of \<open>http_server\<close> for this server, with what was
  sent to the API as the effect on the account. A small account serves the witnesses.
\<close>

section \<open>The server and its surroundings\<close>

record 'w surroundings =
  su_sdk :: "'w sdk"
  su_endpoints :: "string \<Rightarrow> string option"
  su_scheduler :: "'w net scheduler"
  su_lookup :: "('w, lookup) op"
  su_lookup_setting :: string
  su_catalog :: "'w net \<Rightarrow> snapshot"
  su_token :: string
  su_csrf :: string
  su_endpoint :: string
  su_version :: string
  su_secure :: bool

definition live_provider :: "'w surroundings \<Rightarrow> 'w net provider" where
  "live_provider d = legacy_provider (su_scheduler d) (api_client (su_sdk d))"

definition live_server :: "'w surroundings \<Rightarrow> 'w net server" where
  "live_server d =
     New (su_endpoints d)
       \<lparr>opt_provider = live_provider d,
        opt_resolver = addressResolver (su_lookup_setting d) (su_lookup d),
        opt_catalog = su_catalog d,
        opt_token = su_token d,
        opt_csrf = su_csrf d,
        opt_endpoint = su_endpoint d,
        opt_version = su_version d,
        opt_secure_cookie = su_secure d\<rparr>"

definition live_handle ::
  "'w surroundings \<Rightarrow> time \<Rightarrow> http_request \<Rightarrow> ('w net, (string \<times> string) list \<times> outcome) op" where
  "live_handle d = handle (su_endpoints d) (live_server d)"

text \<open>The key the API would name, asked at this moment, as the one in use.\<close>

definition key_in_use :: "'w surroundings \<Rightarrow> 'w net \<Rightarrow> int option" where
  "key_in_use d = client_identity (api_client (su_sdk d))"

text \<open>The keys a sweep or an inventory starting from \<open>s\<close> reads: the identity call, then the listing.\<close>

definition listed_keys :: "'w surroundings \<Rightarrow> 'w net \<Rightarrow> credential list" where
  "listed_keys d s =
     slice (fst (fst (list_credentials (live_server d) (snd (pr_current (live_provider d) s)))))"

text \<open>The applications the bulk deletion reads from \<open>s\<close>, and the keys it reads after them.\<close>

definition listed_applications :: "'w surroundings \<Rightarrow> 'w net \<Rightarrow> application list" where
  "listed_applications d s = slice (fst (fst (pr_applications (live_provider d) s)))"

definition keys_after_applications :: "'w surroundings \<Rightarrow> 'w net \<Rightarrow> credential list" where
  "keys_after_applications d s =
     slice (fst (fst (list_credentials (live_server d) (snd (pr_applications (live_provider d) s)))))"

lemma live_server_simps [simp]:
  "sv_provider (live_server d) = live_provider d"
  "sv_resolver (live_server d) = addressResolver (su_lookup_setting d) (su_lookup d)"
  "sv_token (live_server d) = su_token d"
  "sv_csrf (live_server d) = su_csrf d"
  "sv_endpoint (live_server d) = su_endpoint d"
  "sv_secure_cookie (live_server d) = su_secure d"
  by (simp_all add: live_server_def New_def)

interpretation live: http_server sent_only "live_server d" "key_in_use d" for d
  by (rule http_server.intro)
    (simp_all add: live_provider_def key_in_use_def api.legacy.provider_contract_axioms
      chosen.address_resolver_axioms)

section \<open>A small account\<close>

text \<open>
  A world that is a list of keys, all under application 1, beside an application 2 without a key,
  answering as the API does; the first key is the one in use. Deleting a key removes it, and every
  other write is accepted and changes nothing.
\<close>

definition small_reply :: "request \<Rightarrow> api_credential list \<Rightarrow> err + reply" where
  "small_reply r keys =
     (if req_path r = ''/auth/currentCredential'' then
        (case keys of [] \<Rightarrow> Inl (ApiError 403) | k # _ \<Rightarrow> Inr (ReplyCredential k))
      else if req_path r = ''/me/api/credential'' then Inr (ReplyIDs (map ac_id keys))
      else if req_path r = ''/me/api/application'' then Inr (ReplyIDs [1, 2])
      else if req_path r = ApplicationPath 1 \<or> req_path r = ApplicationPath 2 then
        (if req_method r = ''GET'' then Inr (ReplyApplication
           \<lparr>aa_id = (if req_path r = ApplicationPath 1 then 1 else 2), aa_key = ''ak'', aa_name = ''n'',
            aa_description = ''d'', aa_status = ''active''\<rparr>)
         else Inr ReplyEmpty)
      else (case find (\<lambda>k. req_path r = CredentialPath (ac_id k)) keys of
              Some k \<Rightarrow> if req_method r = ''GET'' then Inr (ReplyCredential k) else Inr ReplyEmpty
            | None \<Rightarrow> Inl (ApiError 404)))"

definition small_call :: "request \<Rightarrow> (api_credential list, err + reply) op" where
  "small_call r keys =
     (small_reply r keys,
      if req_method r = ''DELETE'' then filter (\<lambda>k. req_path r \<noteq> CredentialPath (ac_id k)) keys else keys)"

definition small_key :: "int \<Rightarrow> string \<Rightarrow> api_credential" where
  "small_key i st =
     \<lparr>ac_id = i, ac_application_id = 1, ac_status = st,
      ac_rules = [(''GET'', ''/me/api/credential''), (''GET'', ''/me/api/credential/*''),
                  (''DELETE'', ''/me/api/credential/*''), (''PUT'', ''/me/api/credential/*''),
                  (''GET'', ''/me/api/application''), (''GET'', ''/me/api/application/*''),
                  (''DELETE'', ''/me/api/application/*'')],
      ac_allowed_ips = [], ac_creation = 1, ac_expiration = None, ac_last_use = None,
      ac_ovh_support = False\<rparr>"

definition small :: "api_credential list surroundings" where
  "small =
     \<lparr>su_sdk = \<lparr>sdk_call = small_call, sdk_pause = (\<lambda>_ w. (False, w)), sdk_ctx_ended = (\<lambda>_. False)\<rparr>,
      su_endpoints = (\<lambda>name. if name = ''ovh-eu'' then Some ''https://eu.api.ovh.com/1.0'' else None),
      su_scheduler = (\<lambda>_ n. [0 ..< n]),
      su_lookup = (\<lambda>w. (LookedUp 200 ''192.0.2.7'' False, w)),
      su_lookup_setting = [],
      su_catalog = (\<lambda>_. \<lparr>sn_routes = [], sn_branches = [], sn_taken = 0, sn_live = False\<rparr>),
      su_token = ''tok'', su_csrf = ''page'', su_endpoint = ''ovh-eu'', su_version = ''1'', su_secure = False\<rparr>"

definition small_account :: "api_credential list net" where
  "small_account =
     \<lparr>net_world = [small_key 5 StatusValidated, small_key 7 StatusExpired], net_sent = []\<rparr>"

lemma small_inventory: "\<exists>answer. fst (inventory (live_server small) now small_account) = Answered 200 answer"
proof -
  let ?own = "pr_current (sv_provider (live_server small)) small_account"
  have "snd (snd (fst (list_credentials (live_server small) (snd (pr_current (live_provider small) small_account))))) = None"
    by code_simp
  then show ?thesis by (simp add: inventory_def Let_def split_beta)
qed

section \<open>Two accounts on which a call fails\<close>

text \<open>
  The small account with a key 7 under application 2 whose detail call the API answers with a
  server error, and the small account while the identity call answers not found.
\<close>

definition failing_on :: "(request \<Rightarrow> bool) \<Rightarrow> int \<Rightarrow> api_credential list surroundings" where
  "failing_on fails status =
     small\<lparr>su_sdk := \<lparr>sdk_call = (\<lambda>q w. if fails q then (Inl (ApiError status), w) else small_call q w),
                      sdk_pause = (\<lambda>_ w. (False, w)), sdk_ctx_ended = (\<lambda>_. False)\<rparr>\<rparr>"

definition unreadable_key :: "api_credential list surroundings" where
  "unreadable_key = failing_on (\<lambda>q. req_method q = ''GET'' \<and> req_path q = CredentialPath 7) 500"

definition two_applications :: "api_credential list net" where
  "two_applications =
     \<lparr>net_world = [small_key 5 StatusValidated, (small_key 7 StatusValidated)\<lparr>ac_application_id := 2\<rparr>],
      net_sent = []\<rparr>"

definition no_identity :: "api_credential list surroundings" where
  "no_identity = failing_on (\<lambda>q. req_path q = ''/auth/currentCredential'') 404"

theorem handoff_carries_rules_witness:
  "\<exists>page. fst (handoff (su_endpoints small) (live_server small)
       (Some [mk_rule ''get '' '' /me/bill/*'', mk_rule ''DELETE'' ''/x'']) small_account) = Answered 200 page \<and>
     decode_query (query_of page) = [(''GET'', ''/me/bill/*''), (''DELETE'', ''/x'')]"
proof -
  let ?sent = "[mk_rule ''get '' '' /me/bill/*'', mk_rule ''DELETE'' ''/x'']"
  have base: "su_endpoints small (sv_endpoint (live_server small)) = Some ''https://eu.api.ovh.com/1.0''"
    by code_simp
  have page: "fst (handoff (su_endpoints small) (live_server small) (Some ?sent) small_account) =
      Answered 200 ''https://eu.api.ovh.com/createToken/?GET=/me/bill/*&DELETE=/x''"
    by code_simp
  have "map (\<lambda>r. (to_upper (trim_space (rule_method r)), trim_space (rule_path r))) ?sent =
      [(''GET'', ''/me/bill/*''), (''DELETE'', ''/x'')]"
    by code_simp
  with handoff_carries_rules [OF page base] page show ?thesis by auto
qed

end
