(* ===== verification/Config.thy ===== *)
theory Config
  imports Go_Strings Go_Errors
begin

text \<open>
  \<open>internal/config\<close>: the configuration file in the \<open>ovh.conf\<close> format. The file is its bytes, with
  the mark of a read that failed after them; \<open>Load\<close> is given what opening the file answered. The
  line scanner is \<open>bufio.Scanner\<close> with its default buffer: a line that does not fit it, line feed
  included, ends the reading with an error. Absent keys read as the empty string, as Go's maps do.
  The lemmas say what an accepted configuration looks like, and that writing a configuration in
  the documented format and reading it gives it back.
\<close>

section \<open>The configuration\<close>

record legacy_credentials =
  lc_application_key :: string
  lc_application_secret :: string
  lc_consumer_key :: string

record account =
  acc_name :: string
  acc_endpoint :: string
  acc_management :: legacy_credentials

record config =
  cfg_default :: string
  cfg_accounts :: "account list"

definition Complete :: "legacy_credentials \<Rightarrow> bool" where
  "Complete l \<longleftrightarrow> lc_application_key l \<noteq> [] \<and> lc_application_secret l \<noteq> [] \<and> lc_consumer_key l \<noteq> []"

definition Account :: "config \<Rightarrow> err + account" where
  "Account c =
     (case find (\<lambda>a. acc_name a = cfg_default c) (cfg_accounts c) of
        Some a \<Rightarrow> Inr a
      | None \<Rightarrow> Inl (Failure ''no account named''))"

section \<open>Lines\<close>

definition max_token_size :: nat where "max_token_size = 64 * 1024"

text \<open>The lines of a file: the last one counts only when something follows the last line feed.\<close>

definition raw_lines :: "string \<Rightarrow> string list" where
  "raw_lines s =
     (let pieces = split_char (CHR 0x0A) s in if last pieces = [] then butlast pieces else pieces)"

definition drop_cr :: "string \<Rightarrow> string" where
  "drop_cr l = (if l \<noteq> [] \<and> last l = CHR 0x0D then butlast l else l)"

definition fits :: "string \<Rightarrow> bool" where
  "fits l \<longleftrightarrow> length l < max_token_size"

definition scanned :: "string \<Rightarrow> string list" where
  "scanned s = map drop_cr (takeWhile fits (raw_lines s))"

definition scan_failed :: "string \<times> bool \<Rightarrow> bool" where
  "scan_failed file \<longleftrightarrow> \<not> list_all fits (raw_lines (fst file)) \<or> snd file"

section \<open>Parsing\<close>

definition applicationsSection :: string where "applicationsSection = ''applications''"

definition defaultSection :: string where "defaultSection = ''default''"

type_synonym sections = "string \<Rightarrow> (string \<Rightarrow> string option) option"

record parse_state =
  ps_current :: string
  ps_sections :: sections
  ps_order :: "string list"

definition section_value :: "sections \<Rightarrow> string \<Rightarrow> string \<Rightarrow> string" where
  "section_value sections name key =
     (case sections name of
        None \<Rightarrow> []
      | Some values \<Rightarrow> (case values key of None \<Rightarrow> [] | Some v \<Rightarrow> v))"

definition parse_header :: "string \<Rightarrow> parse_state \<Rightarrow> err + parse_state" where
  "parse_header text st =
     (if \<not> has_suffix text '']'' then Inl (Failure ''unterminated section header'')
      else (let current = trim_space (butlast (tl text)) in
        if current = [] then Inl (Failure ''empty section name'')
        else if ps_sections st current \<noteq> None then Inr (st\<lparr>ps_current := current\<rparr>)
        else Inr (st\<lparr>ps_current := current,
                     ps_sections := (ps_sections st)(current := Some (\<lambda>_. None)),
                     ps_order := ps_order st @ [current]\<rparr>)))"

definition parse_pair :: "string \<Rightarrow> parse_state \<Rightarrow> err + parse_state" where
  "parse_pair text st =
     (case cut_char (CHR ''='') text of
        None \<Rightarrow> Inl (Failure ''expected key=value'')
      | Some (key, value) \<Rightarrow>
          if ps_current st = [] then Inl (Failure ''key outside of any section'')
          else Inr (st\<lparr>ps_sections := (ps_sections st)(ps_current st :=
                 map_option (\<lambda>values. values(trim_space key := Some (trim_space value)))
                   (ps_sections st (ps_current st)))\<rparr>))"

definition parse_line :: "string \<Rightarrow> parse_state \<Rightarrow> err + parse_state" where
  "parse_line line st =
     (let text = trim_space line in
      if text = [] \<or> has_prefix text '';'' \<or> has_prefix text ''#'' then Inr st
      else if has_prefix text ''['' then parse_header text st
      else parse_pair text st)"

fun parse_lines :: "string list \<Rightarrow> parse_state \<Rightarrow> err + parse_state" where
  "parse_lines [] st = Inr st"
| "parse_lines (line # lines) st =
     (case parse_line line st of Inl e \<Rightarrow> Inl e | Inr st' \<Rightarrow> parse_lines lines st')"

definition account_of :: "sections \<Rightarrow> string \<Rightarrow> account" where
  "account_of sections name =
     \<lparr>acc_name = name, acc_endpoint = name,
      acc_management =
        \<lparr>lc_application_key = section_value sections name ''application_key'',
         lc_application_secret = section_value sections name ''application_secret'',
         lc_consumer_key = section_value sections name ''consumer_key''\<rparr>\<rparr>"

definition build :: "sections \<Rightarrow> string list \<Rightarrow> err + config" where
  "build sections order =
     (let named = section_value sections defaultSection ''endpoint'';
          accounts = map (account_of sections)
            (filter (\<lambda>name. name \<noteq> defaultSection \<and> name \<noteq> applicationsSection) order)
      in if accounts = [] then Inl (Failure ''no endpoint section found'')
         else (let default = (if named = [] then acc_name (hd accounts) else named) in
           if sections default = None then Inl (Failure ''default endpoint has no matching section'')
           else Inr \<lparr>cfg_default = default, cfg_accounts = accounts\<rparr>))"

definition parse :: "string \<times> bool \<Rightarrow> err + config" where
  "parse file =
     (case parse_lines (scanned (fst file))
             \<lparr>ps_current = [], ps_sections = (\<lambda>_. None), ps_order = []\<rparr> of
        Inl e \<Rightarrow> Inl e
      | Inr st \<Rightarrow>
          if scan_failed file then Inl (Failure ''scan'')
          else build (ps_sections st) (ps_order st))"

definition Load :: "err + (string \<times> bool) \<Rightarrow> err + config" where
  "Load opened =
     (case opened of
        Inl e \<Rightarrow> Inl (Wrap [e])
      | Inr file \<Rightarrow> (case parse file of Inl e \<Rightarrow> Inl (Wrap [e]) | Inr cfg \<Rightarrow> Inr cfg))"

section \<open>What an accepted configuration looks like\<close>

text \<open>Sections and the order they were opened in go together, and what they hold is trimmed.\<close>

definition plain_value :: "string \<Rightarrow> bool" where
  "plain_value v \<longleftrightarrow> trim_space v = v \<and> CHR 0x0A \<notin> set v"

definition state_ok :: "parse_state \<Rightarrow> bool" where
  "state_ok st \<longleftrightarrow>
     distinct (ps_order st) \<and>
     (\<forall>name. ps_sections st name \<noteq> None \<longleftrightarrow> name \<in> set (ps_order st)) \<and>
     (\<forall>name \<in> set (ps_order st). name \<noteq> [] \<and> plain_value name) \<and>
     (\<forall>name values key v. ps_sections st name = Some values \<longrightarrow> values key = Some v \<longrightarrow> plain_value v) \<and>
     (ps_current st = [] \<or> ps_current st \<in> set (ps_order st))"

lemma plain_trim: "CHR 0x0A \<notin> set s \<Longrightarrow> plain_value (trim_space s)"
  using set_trim_space [of s] by (auto simp: plain_value_def)

lemma parse_header_ok:
  assumes "state_ok st" "CHR 0x0A \<notin> set text" "parse_header text st = Inr st'"
  shows "state_ok st'"
proof -
  define name where "name = trim_space (butlast (tl text))"
  have "CHR 0x0A \<notin> set (butlast (tl text))"
    using assms(2) by (cases "text") (auto dest: in_set_butlastD)
  then have "plain_value name" by (simp add: plain_trim name_def)
  with assms show ?thesis
    by (auto simp: parse_header_def state_ok_def name_def [symmetric] Let_def split: if_splits)
qed

lemma parse_pair_ok:
  assumes "state_ok st" "CHR 0x0A \<notin> set text" "parse_pair text st = Inr st'"
  shows "state_ok st'"
proof -
  obtain key v where cut: "cut_char (CHR ''='') text = Some (key, v)"
    using assms(3) by (auto simp: parse_pair_def split: option.splits)
  then have "plain_value (trim_space v)"
    using assms(2) by (auto simp: cut_char_Some intro: plain_trim)
  with assms cut show ?thesis
    by (auto simp: parse_pair_def state_ok_def split: if_splits)
qed

lemma parse_line_ok:
  assumes "state_ok st" "CHR 0x0A \<notin> set line" "parse_line line st = Inr st'"
  shows "state_ok st'"
proof -
  have "CHR 0x0A \<notin> set (trim_space line)" using assms(2) set_trim_space by blast
  with assms show ?thesis
    using parse_header_ok [of st "trim_space line" st'] parse_pair_ok [of st "trim_space line" st']
    by (simp add: parse_line_def Let_def split: if_splits)
qed

lemma parse_lines_ok:
  "state_ok st \<Longrightarrow> list_all (\<lambda>l. CHR 0x0A \<notin> set l) lines \<Longrightarrow> parse_lines lines st = Inr st' \<Longrightarrow> state_ok st'"
  by (induction lines st rule: parse_lines.induct) (auto dest: parse_line_ok split: sum.splits)

lemma scanned_no_lf: "list_all (\<lambda>l. CHR 0x0A \<notin> set l) (scanned s)"
proof -
  have "CHR 0x0A \<notin> set l" if "l \<in> set (raw_lines s)" for l
    using that split_char_pieces by (fastforce simp: raw_lines_def Let_def dest: in_set_butlastD split: if_splits)
  then show ?thesis
    by (auto simp: scanned_def list_all_iff drop_cr_def dest!: set_takeWhileD in_set_butlastD)
qed

lemma section_value_plain: "state_ok st \<Longrightarrow> plain_value (section_value (ps_sections st) name key)"
proof -
  have "plain_value []" by code_simp
  then show "state_ok st \<Longrightarrow> plain_value (section_value (ps_sections st) name key)"
    by (auto simp: section_value_def state_ok_def split: option.split)
qed
lemma parse_accepted:
  assumes "parse file = Inr cfg"
  obtains st where "state_ok st" "build (ps_sections st) (ps_order st) = Inr cfg" "\<not> scan_failed file"
proof -
  have "state_ok \<lparr>ps_current = [], ps_sections = (\<lambda>_. None), ps_order = []\<rparr>"
    by (simp add: state_ok_def)
  with assms that show ?thesis
    by (auto simp: parse_def split: sum.splits if_splits dest: parse_lines_ok [OF _ scanned_no_lf])
qed

text \<open>
  C38: A configuration file that is read without an error names at least one account and each
  account once; no account stands for the sections that are not endpoints, every name and value is
  trimmed and lies on one line, and the account to drive exists, unless the file names one of those
  two sections as its default endpoint.
\<close>

theorem accepted_configuration:
  assumes "parse file = Inr cfg"
  shows "cfg_accounts cfg \<noteq> [] \<and> distinct (map acc_name (cfg_accounts cfg)) \<and>
    (\<forall>a \<in> set (cfg_accounts cfg).
       acc_endpoint a = acc_name a \<and> acc_name a \<noteq> [] \<and>
       acc_name a \<noteq> ''default'' \<and> acc_name a \<noteq> ''applications'' \<and>
       plain_value (acc_name a) \<and> plain_value (lc_application_key (acc_management a)) \<and>
       plain_value (lc_application_secret (acc_management a)) \<and>
       plain_value (lc_consumer_key (acc_management a))) \<and>
    (cfg_default cfg = ''default'' \<or> cfg_default cfg = ''applications'' \<or>
     (\<exists>a \<in> set (cfg_accounts cfg). Account cfg = Inr a \<and> acc_name a = cfg_default cfg))"
proof -
  obtain st where ok: "state_ok st" and built: "build (ps_sections st) (ps_order st) = Inr cfg"
    using assms by (rule parse_accepted)
  define names where "names = filter (\<lambda>name. name \<noteq> defaultSection \<and> name \<noteq> applicationsSection) (ps_order st)"
  have accounts: "cfg_accounts cfg = map (account_of (ps_sections st)) names" and "names \<noteq> []"
    and known: "cfg_default cfg \<in> set (ps_order st)"
    using built ok by (auto simp: build_def Let_def names_def state_ok_def split: if_splits)
  have name: "acc_name (account_of s n) = n" for s n by (simp add: account_of_def)
  have "cfg_default cfg \<in> set names \<or> cfg_default cfg = ''default'' \<or> cfg_default cfg = ''applications''"
    using known by (auto simp: names_def defaultSection_def applicationsSection_def)
  moreover have "\<exists>a \<in> set (cfg_accounts cfg). Account cfg = Inr a \<and> acc_name a = cfg_default cfg"
    if "cfg_default cfg \<in> set names"
  proof -
    have "find (\<lambda>a. acc_name a = cfg_default cfg) (cfg_accounts cfg) \<noteq> None"
      using that by (auto simp: accounts find_None_iff name)
    then obtain a where "find (\<lambda>a. acc_name a = cfg_default cfg) (cfg_accounts cfg) = Some a" by blast
    moreover from this have "a \<in> set (cfg_accounts cfg)" "acc_name a = cfg_default cfg"
      by (auto simp: find_Some_iff)
    ultimately show ?thesis by (auto simp: Account_def)
  qed
  ultimately show ?thesis
    using ok \<open>names \<noteq> []\<close> section_value_plain [OF ok]
    by (auto simp: accounts names_def account_of_def state_ok_def defaultSection_def applicationsSection_def
        distinct_map inj_on_def comp_def)
qed

theorem accepted_configuration_witness:
  "Account \<lparr>cfg_default = ''ovh-eu'', cfg_accounts =
       [\<lparr>acc_name = ''ovh-eu'', acc_endpoint = ''ovh-eu'', acc_management =
          \<lparr>lc_application_key = ''ak'', lc_application_secret = ''a#s'', lc_consumer_key = []\<rparr>\<rparr>]\<rparr> =
     Inr \<lparr>acc_name = ''ovh-eu'', acc_endpoint = ''ovh-eu'', acc_management =
          \<lparr>lc_application_key = ''ak'', lc_application_secret = ''a#s'', lc_consumer_key = []\<rparr>\<rparr>"
proof -
  have "parse (join_with [CHR 0x0A] [''; a comment'', '' [ovh-eu] '', ''application_key= ak'',
      ''application_secret=a#s'', ''[applications]'', ''terraform=x''], False) =
    Inr \<lparr>cfg_default = ''ovh-eu'', cfg_accounts =
       [\<lparr>acc_name = ''ovh-eu'', acc_endpoint = ''ovh-eu'', acc_management =
          \<lparr>lc_application_key = ''ak'', lc_application_secret = ''a#s'', lc_consumer_key = []\<rparr>\<rparr>]\<rparr>"
    by code_simp
  from accepted_configuration [OF this] show ?thesis by auto
qed

text \<open>The exception is real: such a file is accepted and names no account.\<close>

lemma special_default_accepted:
  "\<exists>cfg. parse (join_with [CHR 0x0A] [''[default]'', ''endpoint=default'', ''[ovh-eu]''], False) = Inr cfg \<and>
     Account cfg = Inl (Failure ''no account named'')"
proof -
  have "parse (join_with [CHR 0x0A] [''[default]'', ''endpoint=default'', ''[ovh-eu]''], False) =
    Inr \<lparr>cfg_default = ''default'', cfg_accounts =
       [\<lparr>acc_name = ''ovh-eu'', acc_endpoint = ''ovh-eu'', acc_management =
          \<lparr>lc_application_key = [], lc_application_secret = [], lc_consumer_key = []\<rparr>\<rparr>]\<rparr>"
    by code_simp
  then show ?thesis by (simp add: Account_def)
qed

section \<open>Writing a configuration and reading it\<close>

definition account_lines :: "account \<Rightarrow> string list" where
  "account_lines a =
     [''['' @ acc_name a @ '']'',
      ''application_key='' @ lc_application_key (acc_management a),
      ''application_secret='' @ lc_application_secret (acc_management a),
      ''consumer_key='' @ lc_consumer_key (acc_management a)]"

definition config_lines :: "config \<Rightarrow> string list" where
  "config_lines cfg =
     ''[default]'' # (''endpoint='' @ cfg_default cfg) # concat (map account_lines (cfg_accounts cfg))"

definition render :: "config \<Rightarrow> string" where
  "render cfg = concat (map (\<lambda>l. l @ [CHR 0x0A]) (config_lines cfg))"

definition writable_account :: "account \<Rightarrow> bool" where
  "writable_account a \<longleftrightarrow>
     acc_endpoint a = acc_name a \<and> acc_name a \<noteq> [] \<and>
     acc_name a \<noteq> defaultSection \<and> acc_name a \<noteq> applicationsSection \<and>
     list_all plain_value [acc_name a, lc_application_key (acc_management a),
       lc_application_secret (acc_management a), lc_consumer_key (acc_management a)]"

definition writable :: "config \<Rightarrow> bool" where
  "writable cfg \<longleftrightarrow>
     list_all writable_account (cfg_accounts cfg) \<and> distinct (map acc_name (cfg_accounts cfg)) \<and>
     cfg_default cfg \<in> set (map acc_name (cfg_accounts cfg)) \<and> list_all fits (config_lines cfg)"

lemma raw_lines_terminated:
  "list_all (\<lambda>l. CHR 0x0A \<notin> set l) ls \<Longrightarrow> raw_lines (concat (map (\<lambda>l. l @ [CHR 0x0A]) ls)) = ls"
proof -
  assume "list_all (\<lambda>l. CHR 0x0A \<notin> set l) ls"
  then have "split_char (CHR 0x0A) (concat (map (\<lambda>l. l @ [CHR 0x0A]) ls)) = ls @ [[]]"
    by (induction ls) (auto simp: split_char_append)
  then show ?thesis by (simp add: raw_lines_def)
qed

lemma drop_cr_trimmed: "trim_space l = l \<Longrightarrow> drop_cr l = l"
proof -
  assume "trim_space l = l"
  moreover have "[CHR 0x0D] \<in> set space_encodings" by (simp add: space_encodings_def)
  ultimately have "\<not> has_suffix l [CHR 0x0D]" using trim_space_id_iff by blast
  then show ?thesis by (cases l rule: rev_cases) (auto simp: drop_cr_def has_suffix_iff)
qed

lemma shields_used:
  "shields (CHR ''['')" "shields (CHR '']'')" "shields (CHR ''='')" "shields (CHR ''a'')"
  "shields (CHR ''c'')" "shields (CHR ''e'')"
  by code_simp+

lemma trim_header: "trim_space (''['' @ name @ '']'') = ''['' @ name @ '']''"
proof -
  have "trim_space [] = []" by code_simp
  from trim_space_shielded(1) [OF shields_used(1,2) this, of name] show ?thesis by simp
qed

lemma trim_pair:
  assumes "shields c" "trim_space v = v"
  shows "trim_space (c # k @ ''='' @ v) = c # k @ ''='' @ v"
  using trim_space_shielded(1) [OF assms(1) shields_used(3) assms(2), of k] by simp

lemma parse_line_header:
  assumes "plain_value name" "name \<noteq> []" "ps_sections st name = None"
  shows "parse_line (''['' @ name @ '']'') st =
     Inr (st\<lparr>ps_current := name, ps_sections := (ps_sections st)(name := Some (\<lambda>_. None)),
             ps_order := ps_order st @ [name]\<rparr>)"
  using assms unfolding parse_line_def trim_header
  by (simp add: parse_header_def plain_value_def has_suffix_iff)

lemma parse_line_pair:
  assumes "trim_space (k @ ''='' @ v) = k @ ''='' @ v" "trim_space k = k" "trim_space v = v"
    and "CHR ''='' \<notin> set k" "k \<noteq> []" "hd k \<notin> set '';#[''"
    and "ps_current st \<noteq> []" "ps_sections st (ps_current st) = Some values"
  shows "parse_line (k @ ''='' @ v) st =
     Inr (st\<lparr>ps_sections := (ps_sections st)(ps_current st := Some (values(k := Some v)))\<rparr>)"
proof -
  have "cut_char (CHR ''='') (k @ ''='' @ v) = Some (k, v)"
    using assms(4) by (simp add: cut_char_Some)
  with assms show ?thesis
    unfolding parse_line_def assms(1)
    by (cases k) (simp_all add: parse_pair_def Let_def)
qed

lemma parse_lines_append:
  "parse_lines (xs @ ys) st =
     (case parse_lines xs st of Inl e \<Rightarrow> Inl e | Inr st' \<Rightarrow> parse_lines ys st')"
  by (induction xs st rule: parse_lines.induct) (auto split: sum.split)


lemma parse_account:
  assumes "writable_account a" "ps_sections st (acc_name a) = None"
  shows "parse_lines (account_lines a) st =
     Inr (st\<lparr>ps_current := acc_name a,
             ps_sections := (ps_sections st)(acc_name a :=
               Some [''application_key'' \<mapsto> lc_application_key (acc_management a),
                     ''application_secret'' \<mapsto> lc_application_secret (acc_management a),
                     ''consumer_key'' \<mapsto> lc_consumer_key (acc_management a)]),
             ps_order := ps_order st @ [acc_name a]\<rparr>)"
proof -
  have v: "trim_space (lc_application_key (acc_management a)) = lc_application_key (acc_management a)"
    "trim_space (lc_application_secret (acc_management a)) = lc_application_secret (acc_management a)"
    "trim_space (lc_consumer_key (acc_management a)) = lc_consumer_key (acc_management a)"
    and n: "plain_value (acc_name a)" "acc_name a \<noteq> []"
    using assms(1) by (auto simp: writable_account_def plain_value_def)
  have k: "trim_space ''application_key'' = ''application_key''"
    "trim_space ''application_secret'' = ''application_secret''"
    "trim_space ''consumer_key'' = ''consumer_key''" by code_simp+
  note pairs = trim_pair [OF shields_used(4) v(1), of "''pplication_key''", simplified]
    trim_pair [OF shields_used(4) v(2), of "''pplication_secret''", simplified]
    trim_pair [OF shields_used(5) v(3), of "''onsumer_key''", simplified]
  note line = parse_line_pair [of "''application_key''", simplified]
    parse_line_pair [of "''application_secret''", simplified]
    parse_line_pair [of "''consumer_key''", simplified]
  show ?thesis
    using parse_line_header [OF n assms(2)] n(2)
    by (simp add: account_lines_def line k pairs v)
qed

lemma account_of_written:
  assumes "writable_account a"
    and "sections (acc_name a) =
       Some [''application_key'' \<mapsto> lc_application_key (acc_management a),
             ''application_secret'' \<mapsto> lc_application_secret (acc_management a),
             ''consumer_key'' \<mapsto> lc_consumer_key (acc_management a)]"
  shows "account_of sections (acc_name a) = a"
  using assms by (simp add: account_of_def section_value_def writable_account_def)

lemma parse_accounts:
  assumes "list_all writable_account as" "distinct (map acc_name as)"
    and "\<forall>a \<in> set as. ps_sections st (acc_name a) = None"
  shows "\<exists>st'. parse_lines (concat (map account_lines as)) st = Inr st' \<and>
     ps_order st' = ps_order st @ map acc_name as \<and>
     map (account_of (ps_sections st')) (map acc_name as) = as \<and>
     (\<forall>a \<in> set as. ps_sections st' (acc_name a) \<noteq> None) \<and>
     (\<forall>name. name \<notin> set (map acc_name as) \<longrightarrow> ps_sections st' name = ps_sections st name)"
  using assms
proof (induction as arbitrary: st)
  case (Cons a as)
  define st1 where "st1 = st\<lparr>ps_current := acc_name a,
             ps_sections := (ps_sections st)(acc_name a :=
               Some [''application_key'' \<mapsto> lc_application_key (acc_management a),
                     ''application_secret'' \<mapsto> lc_application_secret (acc_management a),
                     ''consumer_key'' \<mapsto> lc_consumer_key (acc_management a)]),
             ps_order := ps_order st @ [acc_name a]\<rparr>"
  have first: "parse_lines (account_lines a) st = Inr st1"
    unfolding st1_def by (rule parse_account) (use Cons.prems in auto)
  have fresh: "\<forall>b \<in> set as. ps_sections st1 (acc_name b) = None"
    using Cons.prems by (auto simp: st1_def) (metis image_eqI)
  have "list_all writable_account as" "distinct (map acc_name as)" using Cons.prems by simp_all
  from Cons.IH [OF this fresh] obtain st' where rest: "parse_lines (concat (map account_lines as)) st1 = Inr st'"
    "ps_order st' = ps_order st1 @ map acc_name as"
    "map (account_of (ps_sections st')) (map acc_name as) = as"
    "\<forall>b \<in> set as. ps_sections st' (acc_name b) \<noteq> None"
    "\<forall>name. name \<notin> set (map acc_name as) \<longrightarrow> ps_sections st' name = ps_sections st1 name"
    by blast
  then have own: "ps_sections st' (acc_name a) = ps_sections st1 (acc_name a)"
    using Cons.prems by simp
  have "account_of (ps_sections st') (acc_name a) = a"
    by (rule account_of_written) (use Cons.prems own in \<open>auto simp: st1_def\<close>)
  moreover have "parse_lines (concat (map account_lines (a # as))) st = Inr st'"
    by (simp add: parse_lines_append first rest(1))
  moreover have "\<forall>name. name \<notin> set (map acc_name (a # as)) \<longrightarrow> ps_sections st' name = ps_sections st name"
    using rest(5) by (simp add: st1_def)
  moreover have "ps_order st' = ps_order st @ map acc_name (a # as)"
    "ps_sections st' (acc_name a) \<noteq> None"
    using rest(2) own by (simp_all add: st1_def)
  ultimately show ?case using rest(3,4) by (intro exI [of _ st']) simp
qed simp

lemma config_lines_plain:
  assumes "writable cfg" "l \<in> set (config_lines cfg)"
  shows "trim_space l = l \<and> CHR 0x0A \<notin> set l"
proof -
  have account: "trim_space l = l \<and> CHR 0x0A \<notin> set l"
    if "writable_account a" "l \<in> set (account_lines a)" for a l
  proof -
    have v: "plain_value (lc_application_key (acc_management a))"
      "plain_value (lc_application_secret (acc_management a))"
      "plain_value (lc_consumer_key (acc_management a))" "plain_value (acc_name a)"
      using that(1) by (auto simp: writable_account_def)
    then show ?thesis
      using that(2) trim_header [of "acc_name a"]
        trim_pair [OF shields_used(4), of "lc_application_key (acc_management a)" "''pplication_key''"]
        trim_pair [OF shields_used(4), of "lc_application_secret (acc_management a)" "''pplication_secret''"]
        trim_pair [OF shields_used(5), of "lc_consumer_key (acc_management a)" "''onsumer_key''"]
      by (auto simp: account_lines_def plain_value_def)
  qed
  have "plain_value (cfg_default cfg)"
    using assms(1) by (auto simp: writable_def list_all_iff writable_account_def)
  then have "trim_space (''endpoint='' @ cfg_default cfg) = ''endpoint='' @ cfg_default cfg \<and>
      CHR 0x0A \<notin> set (''endpoint='' @ cfg_default cfg)"
    using trim_pair [OF shields_used(6), of "cfg_default cfg" "''ndpoint''"] by (simp add: plain_value_def)
  moreover have "trim_space ''[default]'' = ''[default]'' \<and> CHR 0x0A \<notin> set ''[default]''" by code_simp
  ultimately show ?thesis
    using assms account by (auto simp: config_lines_def writable_def list_all_iff)
qed

lemma scanned_render:
  assumes "writable cfg"
  shows "scanned (render cfg) = config_lines cfg" "scan_failed (render cfg, broken) \<longleftrightarrow> broken"
proof -
  have raw: "raw_lines (render cfg) = config_lines cfg"
    unfolding render_def by (rule raw_lines_terminated) (use config_lines_plain [OF assms] in \<open>auto simp: list_all_iff\<close>)
  have all: "list_all fits (config_lines cfg)" using assms by (simp add: writable_def)
  then have prefix: "takeWhile fits (config_lines cfg) = config_lines cfg" by (simp add: list_all_iff)
  have crs: "map drop_cr (config_lines cfg) = config_lines cfg"
    using config_lines_plain [OF assms] by (simp add: map_idI drop_cr_trimmed)
  then show "scanned (render cfg) = config_lines cfg" "scan_failed (render cfg, broken) \<longleftrightarrow> broken"
    by (simp_all add: scanned_def scan_failed_def raw all prefix del: takeWhile_eq_all_conv)
qed

text \<open>
  C18: Reading back a configuration written in the documented format gives that configuration,
  whatever characters its trimmed values hold, those that open a comment or a section included.
\<close>

theorem configuration_roundtrip:
  assumes "writable cfg"
  shows "parse (render cfg, False) = Inr cfg"
proof -
  define st1 where "st1 = \<lparr>ps_current = defaultSection,
     ps_sections = [defaultSection \<mapsto> [''endpoint'' \<mapsto> cfg_default cfg]], ps_order = [defaultSection]\<rparr>"
  have trims: "trim_space ''endpoint'' = ''endpoint''" "trim_space ''default'' = ''default''" by code_simp+
  have as: "list_all writable_account (cfg_accounts cfg)" "distinct (map acc_name (cfg_accounts cfg))"
    and default: "cfg_default cfg \<in> set (map acc_name (cfg_accounts cfg))"
    using assms by (simp_all add: writable_def)
  from default as have named: "plain_value (cfg_default cfg)" "cfg_default cfg \<noteq> []"
    by (auto simp: list_all_iff writable_account_def)
  have "parse_line ''[default]'' \<lparr>ps_current = [], ps_sections = (\<lambda>_. None), ps_order = []\<rparr> =
      Inr \<lparr>ps_current = defaultSection, ps_sections = [defaultSection \<mapsto> (\<lambda>_. None)], ps_order = [defaultSection]\<rparr>"
    using parse_line_header [of defaultSection "\<lparr>ps_current = [], ps_sections = (\<lambda>_. None), ps_order = []\<rparr>"]
    by (simp add: defaultSection_def plain_value_def trims)
  moreover have "parse_line (''endpoint='' @ cfg_default cfg)
      \<lparr>ps_current = defaultSection, ps_sections = [defaultSection \<mapsto> (\<lambda>_. None)], ps_order = [defaultSection]\<rparr> = Inr st1"
    using parse_line_pair [of "''endpoint''" "cfg_default cfg"]
      trim_pair [OF shields_used(6), of "cfg_default cfg" "''ndpoint''"] named
    by (simp add: st1_def defaultSection_def plain_value_def trims)
  ultimately have first: "parse_lines (config_lines cfg) \<lparr>ps_current = [], ps_sections = (\<lambda>_. None), ps_order = []\<rparr> =
      parse_lines (concat (map account_lines (cfg_accounts cfg))) st1"
    by (simp add: config_lines_def)
  have fresh: "\<forall>a \<in> set (cfg_accounts cfg). ps_sections st1 (acc_name a) = None"
    using as(1) by (auto simp: st1_def list_all_iff writable_account_def)
  have special: "defaultSection \<notin> set (map acc_name (cfg_accounts cfg))"
    using as(1) by (auto simp: list_all_iff writable_account_def)
  obtain st' where st': "parse_lines (concat (map account_lines (cfg_accounts cfg))) st1 = Inr st'"
    "ps_order st' = ps_order st1 @ map acc_name (cfg_accounts cfg)"
    "map (account_of (ps_sections st')) (map acc_name (cfg_accounts cfg)) = cfg_accounts cfg"
    "\<forall>a \<in> set (cfg_accounts cfg). ps_sections st' (acc_name a) \<noteq> None"
    "\<forall>name. name \<notin> set (map acc_name (cfg_accounts cfg)) \<longrightarrow> ps_sections st' name = ps_sections st1 name"
    using parse_accounts [OF as fresh] by blast
  then have endpoint: "ps_sections st' defaultSection = Some [''endpoint'' \<mapsto> cfg_default cfg]"
    using special by (simp add: st1_def)
  have names: "filter (\<lambda>name. name \<noteq> defaultSection \<and> name \<noteq> applicationsSection) (ps_order st') =
      map acc_name (cfg_accounts cfg)"
    using as(1) by (auto simp: st'(2) st1_def list_all_iff writable_account_def filter_id_conv)
  have "build (ps_sections st') (ps_order st') = Inr cfg"
    unfolding build_def names st'(3)
    using default named(2) st'(4) endpoint by (auto simp: section_value_def Let_def)
  then show ?thesis
    by (simp add: parse_def scanned_render [OF assms] first st'(1))
qed

theorem configuration_roundtrip_witness:
  "parse (render \<lparr>cfg_default = ''b'', cfg_accounts =
       [\<lparr>acc_name = ''a'', acc_endpoint = ''a'', acc_management =
          \<lparr>lc_application_key = ''k'', lc_application_secret = ''s#;[='', lc_consumer_key = []\<rparr>\<rparr>,
        \<lparr>acc_name = ''b'', acc_endpoint = ''b'', acc_management =
          \<lparr>lc_application_key = [], lc_application_secret = []  , lc_consumer_key = ''c''\<rparr>\<rparr>]\<rparr>, False) =
   Inr \<lparr>cfg_default = ''b'', cfg_accounts =
       [\<lparr>acc_name = ''a'', acc_endpoint = ''a'', acc_management =
          \<lparr>lc_application_key = ''k'', lc_application_secret = ''s#;[='', lc_consumer_key = []\<rparr>\<rparr>,
        \<lparr>acc_name = ''b'', acc_endpoint = ''b'', acc_management =
          \<lparr>lc_application_key = [], lc_application_secret = []  , lc_consumer_key = ''c''\<rparr>\<rparr>]\<rparr>"
  by (rule configuration_roundtrip) code_simp

end
