(* ===== verification/Pacing.thy ===== *)
theory Pacing
  imports Ovh_Client Config
begin

text \<open>
  \<open>internal/ovh/pacing.go\<close> and \<open>NewAPIClient\<close> of \<open>internal/ovh/api.go\<close>: the transport under the
  SDK that waits when the API refuses a call for its rate, and the assembly of the client of one
  account. The transport below, the clock, the end of the request's context and the reading of an
  HTTP date are library code and arguments. The lemmas bound the wait, whatever the API asks for,
  and the time one paced call may spend waiting.
\<close>

section \<open>The delay\<close>

definition rateLimitWait :: duration where "rateLimitWait = second_ns"

definition rateLimitCeiling :: duration where "rateLimitCeiling = 10 * second_ns"

definition statusTooManyRequests :: int where "statusTooManyRequests = 429"

record pacing =
  pc_fallback :: duration
  pc_ceiling :: duration

text \<open>The product of two durations wraps at the ends of \<open>int64\<close>.\<close>

definition wrap64 :: "int \<Rightarrow> int" where
  "wrap64 i = (i + 2 ^ 63) mod 2 ^ 64 - 2 ^ 63"

definition delay :: "(string \<Rightarrow> time option) \<Rightarrow> pacing \<Rightarrow> string \<Rightarrow> time \<Rightarrow> duration" where
  "delay http_time p header now =
     (let header = trim_space header;
          wait = (case parse_int64 header of
            Some seconds \<Rightarrow>
              if seconds \<ge> 0 then
                (if seconds < pc_ceiling p div second_ns then wrap64 (seconds * second_ns) else pc_ceiling p)
              else (case http_time header of Some at \<Rightarrow> time_sub at now | None \<Rightarrow> pc_fallback p)
          | None \<Rightarrow> (case http_time header of Some at \<Rightarrow> time_sub at now | None \<Rightarrow> pc_fallback p))
      in min (max wait 0) (pc_ceiling p))"

section \<open>The transport\<close>

record http_answer =
  ha_status :: int
  ha_retry_after :: string

record 'w transport =
  tp_next :: "('w, err + http_answer) op"
  tp_clock :: "'w \<Rightarrow> time"
  tp_pause :: "duration \<Rightarrow> ('w, bool) op"
  tp_http_time :: "string \<Rightarrow> time option"

text \<open>\<open>tp_pause\<close> says whether the context of the request ended before the delay did.\<close>

record 'w waiting =
  wt_world :: 'w
  wt_waits :: "duration list"

definition pause_for :: "'w transport \<Rightarrow> duration \<Rightarrow> ('w waiting, bool) op" where
  "pause_for t d s =
     (let (ended, w) = tp_pause t d (wt_world s)
      in (ended, s\<lparr>wt_world := w, wt_waits := wt_waits s @ [d]\<rparr>))"

definition RoundTrip :: "'w transport \<Rightarrow> pacing \<Rightarrow> ('w waiting, err + http_answer) op" where
  "RoundTrip t p s =
     (let (resp, w) = tp_next t (wt_world s); s1 = s\<lparr>wt_world := w\<rparr>
      in case resp of
           Inl e \<Rightarrow> (Inl e, s1)
         | Inr a \<Rightarrow>
             if ha_status a \<noteq> statusTooManyRequests then (Inr a, s1)
             else (let (ended, s2) =
                     pause_for t (delay (tp_http_time t) p (ha_retry_after a) (tp_clock t (wt_world s1))) s1
                   in if ended then (Inl (Failure ''context''), s2) else (Inr a, s2)))"

section \<open>The client of an account\<close>

definition requestTimeout :: duration where "requestTimeout = 30 * second_ns"

definition userAgent :: string where "userAgent = ''keymaker''"

record sdk_client =
  sc_app_key :: string
  sc_app_secret :: string
  sc_consumer_key :: string
  sc_pacing :: pacing
  sc_timeout :: duration
  sc_user_agent :: string
  sc_endpoint :: string

text \<open>\<open>set_endpoint\<close> is the SDK's check of the address it is given.\<close>

definition NewAPIClient ::
  "(string \<Rightarrow> string option) \<Rightarrow> (string \<Rightarrow> err option) \<Rightarrow> account \<Rightarrow> err + sdk_client" where
  "NewAPIClient sdk_endpoints set_endpoint account =
     (case endpointURL sdk_endpoints (acc_endpoint account) of
        Inl e \<Rightarrow> Inl e
      | Inr endpoint \<Rightarrow>
          if \<not> Complete (acc_management account) then Inl (Failure ''management credential is incomplete'')
          else (case set_endpoint endpoint of
                  Some e \<Rightarrow> Inl e
                | None \<Rightarrow>
                    Inr \<lparr>sc_app_key = lc_application_key (acc_management account),
                         sc_app_secret = lc_application_secret (acc_management account),
                         sc_consumer_key = lc_consumer_key (acc_management account),
                         sc_pacing = \<lparr>pc_fallback = rateLimitWait, pc_ceiling = rateLimitCeiling\<rparr>,
                         sc_timeout = requestTimeout, sc_user_agent = userAgent,
                         sc_endpoint = endpoint\<rparr>))"

lemma client_of_account:
  "NewAPIClient sdk_endpoints set_endpoint account = Inr c \<Longrightarrow>
   sc_app_secret c = lc_application_secret (acc_management account) \<and>
   sc_consumer_key c = lc_consumer_key (acc_management account) \<and>
   Complete (acc_management account) \<and>
   acc_endpoint account \<in> {''ovh-eu'', ''ovh-ca'', ''ovh-us''} \<and>
   sc_pacing c = \<lparr>pc_fallback = rateLimitWait, pc_ceiling = rateLimitCeiling\<rparr>"
  by (auto simp: NewAPIClient_def endpointURL_def supportedEndpoints_def
      split: sum.splits option.splits if_splits)

section \<open>Bounds\<close>

lemma wrap64_in_range: "- (2 ^ 63) \<le> i \<Longrightarrow> i < 2 ^ 63 \<Longrightarrow> wrap64 i = i"
  by (simp add: wrap64_def)

lemma delay_bounds: "0 \<le> pc_ceiling p \<Longrightarrow> 0 \<le> delay http_time p header now \<and> delay http_time p header now \<le> pc_ceiling p"
  by (simp add: delay_def Let_def)

text \<open>A number of seconds is waited out exactly, up to the ceiling, however large it is.\<close>

lemma delay_seconds:
  assumes "parse_int64 (trim_space header) = Some n" "0 \<le> n" "pc_ceiling p = k * second_ns" "0 \<le> k" "k * second_ns \<le> max_duration"
  shows "delay http_time p header now = min (n * second_ns) (pc_ceiling p)"
proof -
  have "wrap64 (n * second_ns) = n * second_ns" if "n < k"
  proof (rule wrap64_in_range)
    have "n * second_ns \<le> k * second_ns" using that by (simp add: second_ns_def)
    then show "n * second_ns < 2 ^ 63" using assms(5) by (simp add: max_duration_def)
    show "- (2 ^ 63) \<le> n * second_ns" using assms(2) by (simp add: second_ns_def)
  qed
  moreover have "k * second_ns div second_ns = k" by (simp add: second_ns_def)
  ultimately show ?thesis
    using assms by (auto simp: delay_def Let_def second_ns_def)
qed

text \<open>One exchange waits once at most, and only after a refusal for the rate.\<close>

lemma RoundTrip_waits:
  assumes "0 \<le> pc_ceiling p"
  shows "wt_waits (snd (RoundTrip t p s)) = wt_waits s \<or>
     (\<exists>d. 0 \<le> d \<and> d \<le> pc_ceiling p \<and> wt_waits (snd (RoundTrip t p s)) = wt_waits s @ [d])"
  using delay_bounds [OF assms]
  by (auto simp: RoundTrip_def pause_for_def Let_def split_beta split: sum.split)

text \<open>The answer is the one of the transport below; only the end of the context replaces it.\<close>

lemma RoundTrip_answer:
  "fst (RoundTrip t p s) = fst (tp_next t (wt_world s)) \<or> fst (RoundTrip t p s) = Inl (Failure ''context'')"
  by (auto simp: RoundTrip_def pause_for_def Let_def split_beta split: sum.split)

lemma paced_loop_waits:
  assumes "\<And>s. \<exists>w. wt_waits (snd (call s)) = wt_waits s @ w \<and> length w \<le> 1 \<and> list_all (\<lambda>d. 0 \<le> d \<and> d \<le> c) w"
  shows "\<exists>w. wt_waits (snd (paced_loop k call r s)) = wt_waits s @ w \<and> length w \<le> k \<and>
     list_all (\<lambda>d. 0 \<le> d \<and> d \<le> c) w"
proof (induction k arbitrary: r s)
  case (Suc k)
  obtain v where v: "wt_waits (snd (call s)) = wt_waits s @ v" "length v \<le> 1" "list_all (\<lambda>d. 0 \<le> d \<and> d \<le> c) v"
    using assms by blast
  obtain w where "wt_waits (snd (paced_loop k call (fst (call s)) (snd (call s)))) = wt_waits (snd (call s)) @ w"
    "length w \<le> k" "list_all (\<lambda>d. 0 \<le> d \<and> d \<le> c) w"
    using Suc.IH by blast
  with v have "wt_waits (snd (paced_loop k call (fst (call s)) (snd (call s)))) = wt_waits s @ (v @ w)"
    "length (v @ w) \<le> Suc k" "list_all (\<lambda>d. 0 \<le> d \<and> d \<le> c) (v @ w)"
    by auto
  then show ?case by (auto simp: Let_def split_beta)
qed simp

lemma paced_waits:
  assumes "\<And>s. \<exists>w. wt_waits (snd (call s)) = wt_waits s @ w \<and> length w \<le> 1 \<and> list_all (\<lambda>d. 0 \<le> d \<and> d \<le> c) w"
  shows "\<exists>w. wt_waits (snd (paced call s)) = wt_waits s @ w \<and> length w \<le> 4 \<and> list_all (\<lambda>d. 0 \<le> d \<and> d \<le> c) w"
proof -
  obtain v where v: "wt_waits (snd (call s)) = wt_waits s @ v" "length v \<le> 1" "list_all (\<lambda>d. 0 \<le> d \<and> d \<le> c) v"
    using assms by blast
  obtain w where w: "wt_waits (snd (paced_loop 3 call (fst (call s)) (snd (call s)))) = wt_waits (snd (call s)) @ w"
    "length w \<le> 3" "list_all (\<lambda>d. 0 \<le> d \<and> d \<le> c) w"
    using paced_loop_waits [where call = call and k = 3, OF assms] by blast
  have "wt_waits (snd (paced call s)) = wt_waits s @ (v @ w)"
    using v(1) w(1) by (simp add: paced_def rateLimitAttempts_def Let_def split_beta)
  moreover have "length (v @ w) \<le> 4" "list_all (\<lambda>d. 0 \<le> d \<and> d \<le> c) (v @ w)"
    using v w by auto
  ultimately show ?thesis by blast
qed

lemma sum_list_bounded:
  fixes w :: "duration list"
  shows "list_all (\<lambda>d. 0 \<le> d \<and> d \<le> c) w \<Longrightarrow> sum_list w \<le> int (length w) * c"
  by (induction w) (auto simp: algebra_simps)



end
