(* ===== verification/Redact.thy ===== *)
theory Redact
  imports Go_Strings
begin

text \<open>
  \<open>internal/logging/redact.go\<close>: the values that must never reach a log line, and the handler that
  replaces them in every record. A log attribute is its key with a rendered value or a group of
  attributes; \<open>Value.Resolve\<close> and the rendering of a value are library code, and a value is the
  text it renders to, with the mark of a value that was not a string. The lock serialises the
  operations, so each is one step here. The lemmas say that what comes out holds no secret, for
  secrets that cannot overlap the placeholder.
\<close>

section \<open>The redactor\<close>

definition Placeholder :: string where "Placeholder = ''[redacted]''"

type_synonym redactor = "string list"

definition known :: "redactor \<Rightarrow> string \<Rightarrow> bool" where
  "known r secret \<longleftrightarrow> list_ex (\<lambda>s. s = secret) r"

fun redactor_Add :: "string list \<Rightarrow> redactor \<Rightarrow> redactor" where
  "redactor_Add [] r = r"
| "redactor_Add (s # secrets) r =
     (if s = [] \<or> known r s then redactor_Add secrets r else redactor_Add secrets (r @ [s]))"

definition Scrub :: "redactor \<Rightarrow> string \<Rightarrow> string" where
  "Scrub r s = foldl (\<lambda>s secret. replace_all s secret Placeholder) s r"

section \<open>The handler\<close>

datatype attr =
    Attr (attr_key: string) (attr_string: bool) (attr_text: string)
  | Group string "attr list"

record log_record =
  lr_message :: string
  lr_attrs :: "attr list"

fun scrub :: "redactor \<Rightarrow> attr \<Rightarrow> attr" where
  "scrub r (Group key members) = Group (Scrub r key) (map (scrub r) members)"
| "scrub r (Attr key is_string rendered) =
     (let clean = Scrub r rendered in
      if clean \<noteq> rendered then Attr (Scrub r key) True clean
      else Attr (Scrub r key) is_string rendered)"

text \<open>What the wrapped handler is given: groups opened, attributes attached, records.\<close>

datatype sink = GroupOpened string | Attached "attr list" | Written log_record

definition handler_Handle :: "redactor \<Rightarrow> log_record \<Rightarrow> sink" where
  "handler_Handle r rec =
     Written \<lparr>lr_message = Scrub r (lr_message rec), lr_attrs = map (scrub r) (lr_attrs rec)\<rparr>"

definition handler_WithAttrs :: "redactor \<Rightarrow> attr list \<Rightarrow> sink" where
  "handler_WithAttrs r attrs = Attached (map (scrub r) attrs)"

definition handler_WithGroup :: "redactor \<Rightarrow> string \<Rightarrow> sink" where
  "handler_WithGroup r name = GroupOpened (Scrub r name)"

text \<open>Every text a piece of output carries.\<close>

fun attr_texts :: "attr \<Rightarrow> string list" where
  "attr_texts (Attr key _ text) = [key, text]"
| "attr_texts (Group key members) = key # concat (map attr_texts members)"

fun sink_texts :: "sink \<Rightarrow> string list" where
  "sink_texts (GroupOpened name) = [name]"
| "sink_texts (Attached attrs) = concat (map attr_texts attrs)"
| "sink_texts (Written rec) = lr_message rec # concat (map attr_texts (lr_attrs rec))"

section \<open>Replacing leaves nothing behind\<close>

lemma replace_all_index:
  "old \<noteq> [] \<Longrightarrow> replace_all s old new =
     (case index_of s old of
        None \<Rightarrow> s
      | Some n \<Rightarrow> take n s @ new @ replace_all (drop (n + length old) s) old new)"
proof (induction s)
  case (Cons c s)
  show ?case
  proof (cases "has_prefix (c # s) old")
    case True
    then show ?thesis using Cons.prems by simp
  next
    case False
    then show ?thesis using Cons by (simp split: option.split)
  qed
qed simp

definition plain_secret :: "string \<Rightarrow> bool" where
  "plain_secret t \<longleftrightarrow> t \<noteq> [] \<and> CHR ''['' \<notin> set t \<and> CHR '']'' \<notin> set t \<and> \<not> contains_str ''redacted'' t"

lemma contains_around:
  assumes "c \<notin> set t" "contains_str (x @ c # y) t"
  shows "contains_str x t \<or> contains_str y t"
proof -
  from assms(2) obtain u v where uv: "x @ c # y = u @ t @ v" by (auto simp: contains_str_iff)
  show ?thesis
  proof (cases "length x < length u")
    case True
    have "y = drop (Suc (length x)) (x @ c # y)" by simp
    also have "\<dots> = drop (Suc (length x)) u @ t @ v" using True by (simp add: uv)
    finally show ?thesis by (auto simp: contains_str_iff)
  next
    case False
    have "length u + length t \<le> length x"
    proof (rule ccontr)
      assume "\<not> ?thesis"
      then have "(u @ t @ v) ! length x = t ! (length x - length u)" "length x - length u < length t"
        using False by (auto simp: nth_append)
      moreover have "(x @ c # y) ! length x = c" by simp
      ultimately show False using uv assms(1) by (metis nth_mem)
    qed
    then have "x = take (length x) (u @ t @ v)" by (simp flip: uv)
    also have "\<dots> = u @ t @ take (length x - length u - length t) v"
      using \<open>length u + length t \<le> length x\<close> by simp
    finally show ?thesis by (auto simp: contains_str_iff)
  qed
qed

lemma contains_placeholder:
  assumes "plain_secret t" "contains_str (x @ Placeholder @ y) t"
  shows "contains_str x t \<or> contains_str y t"
proof -
  have t: "CHR ''['' \<notin> set t" "CHR '']'' \<notin> set t" "\<not> contains_str ''redacted'' t"
    using assms(1) by (simp_all add: plain_secret_def)
  have "Placeholder @ y = CHR ''['' # (''redacted'' @ CHR '']'' # y)"
    by (simp add: Placeholder_def)
  with assms(2) have "contains_str x t \<or> contains_str (''redacted'' @ CHR '']'' # y) t"
    using contains_around [OF t(1)] by metis
  then show ?thesis using contains_around [OF t(2)] t(3) by blast
qed

lemma contains_part: "contains_str x t \<Longrightarrow> contains_str (u @ x @ v) t"
  unfolding contains_str_iff by (metis append.assoc)

lemma replace_all_keeps_out:
  assumes "plain_secret t" "old \<noteq> []" "contains_str (replace_all s old Placeholder) t"
  shows "contains_str s t \<and> t \<noteq> old"
  using assms(3)
proof (induction "length s" arbitrary: s rule: less_induct)
  case less
  show ?case
  proof (cases "index_of s old")
    case None
    then have "replace_all s old Placeholder = s" using assms(2) by (simp add: replace_all_index)
    with less.prems None show ?thesis by (auto simp: contains_str_def)
  next
    case (Some n)
    let ?rest = "drop (n + length old) s"
    have split: "s = take n s @ old @ ?rest" by (rule index_of_Some [OF Some])
    have "replace_all s old Placeholder = take n s @ Placeholder @ replace_all ?rest old Placeholder"
      using assms(2) Some by (simp add: replace_all_index [of old s])
    with less.prems have "contains_str (take n s) t \<or> contains_str (replace_all ?rest old Placeholder) t"
      using contains_placeholder [OF assms(1)] by metis
    then show ?thesis
    proof
      assume t: "contains_str (take n s) t"
      then have "contains_str s t"
        using contains_part [of "take n s" t "[]" "old @ ?rest"] split by simp
      moreover have "t \<noteq> old"
      proof
        assume "t = old"
        with t obtain u v where uv: "take n s = u @ old @ v" by (auto simp: contains_str_iff)
        with split have "s = u @ old @ (v @ old @ ?rest)" by simp
        with index_of_leftmost [OF this] Some have "n \<le> length u" by simp
        moreover have "length u + length old \<le> n"
          using arg_cong [OF uv, of length] by simp
        ultimately show False using assms(2) by (cases old) auto
      qed
      ultimately show ?thesis by simp
    next
      assume t: "contains_str (replace_all ?rest old Placeholder) t"
      have "length ?rest < length s"
        using arg_cong [OF split, of length] assms(2) by (cases old) simp_all
      from less.hyps [OF this t] have "contains_str ?rest t" "t \<noteq> old" by auto
      with contains_part [of ?rest t "take n s @ old" "[]"] split show ?thesis by simp
    qed
  qed
qed

lemma Scrub_keeps_out:
  assumes "plain_secret t"
  shows "[] \<notin> set r \<Longrightarrow> \<not> contains_str s t \<Longrightarrow> \<not> contains_str (Scrub r s) t"
proof (induction r arbitrary: s)
  case (Cons a r)
  then have "\<not> contains_str (replace_all s a Placeholder) t"
    using replace_all_keeps_out [OF assms, of a s] by auto
  with Cons.IH [of "replace_all s a Placeholder"] Cons.prems(1) show ?case by (simp add: Scrub_def)
qed (simp add: Scrub_def)

lemma Scrub_clean:
  assumes "plain_secret t"
  shows "[] \<notin> set r \<Longrightarrow> t \<in> set r \<Longrightarrow> \<not> contains_str (Scrub r s) t"
proof (induction r arbitrary: s)
  case (Cons a r)
  show ?case
  proof (cases "t = a")
    case True
    then have "\<not> contains_str (replace_all s a Placeholder) t"
      using replace_all_keeps_out [OF assms, of a s] Cons.prems by auto
    then show ?thesis
      using Scrub_keeps_out [OF assms, of r "replace_all s a Placeholder"] Cons.prems
      by (simp add: Scrub_def)
  next
    case False
    then show ?thesis
      using Cons.IH [of "replace_all s a Placeholder"] Cons.prems by (simp add: Scrub_def)
  qed
qed simp

lemma scrub_clean:
  "x \<in> set (attr_texts (scrub r a)) \<Longrightarrow> plain_secret t \<Longrightarrow> [] \<notin> set r \<Longrightarrow> t \<in> set r \<Longrightarrow>
   \<not> contains_str x t"
proof (induction r a rule: scrub.induct)
  case (1 r key members)
  from "1.prems"(1) have "x = Scrub r key \<or> (\<exists>a \<in> set members. x \<in> set (attr_texts (scrub r a)))"
    by auto
  with "1.IH" "1.prems" Scrub_clean show ?case by blast
next
  case (2 r key is_string rendered)
  from "2.prems"(1) have "x = Scrub r key \<or> x = Scrub r rendered"
    by (auto simp: Let_def split: if_splits)
  with "2.prems" Scrub_clean show ?case by blast
qed

lemma redactor_Add_set: "set (redactor_Add secrets r) = set r \<union> (set secrets - {[]})"
  by (induction secrets r rule: redactor_Add.induct) (auto simp: known_def list_ex_iff)

text \<open>Everything the handler hands on, for any redactor that knows the secret.\<close>

lemma handler_keeps_out:
  assumes "t \<in> set r" "[] \<notin> set r" "plain_secret t"
    and "out = handler_Handle r rec \<or> out = handler_WithAttrs r attrs \<or> out = handler_WithGroup r name"
  shows "\<forall>x \<in> set (sink_texts out). \<not> contains_str x t"
  using assms(4) Scrub_clean [OF assms(3,2,1)] scrub_clean [OF _ assms(3,2,1)]
  by (auto simp: handler_Handle_def handler_WithAttrs_def handler_WithGroup_def)



end
