(* ===== verification/Go_Net.thy ===== *)
theory Go_Net
  imports Go_Netip
begin

text \<open>
  The library functions the startup of the process uses: \<open>net.SplitHostPort\<close> and
  \<open>net.JoinHostPort\<close>, two classes of addresses of \<open>net/netip\<close>, \<open>strings.ToLower\<close> as far as a
  comparison with ASCII words sees it, and the unpadded URL alphabet of \<open>encoding/base64\<close>. The
  lemmas are their round trips.
\<close>

section \<open>Host and port\<close>

definition last_index :: "char \<Rightarrow> string \<Rightarrow> nat option" where
  "last_index c s =
     (case index_of (rev s) [c] of None \<Rightarrow> None | Some n \<Rightarrow> Some (length s - 1 - n))"

definition split_host_port :: "string \<Rightarrow> (string \<times> string) option" where
  "split_host_port s =
     (case last_index (CHR '':'') s of
        None \<Rightarrow> None
      | Some i \<Rightarrow>
          if has_prefix s ''['' then
            (case index_of s '']'' of
               None \<Rightarrow> None
             | Some e \<Rightarrow>
                 if e + 1 \<noteq> i then None
                 else if CHR ''['' \<in> set (drop 1 s) \<or> CHR '']'' \<in> set (drop (e + 1) s) then None
                 else Some (take (e - 1) (drop 1 s), drop (i + 1) s))
          else if CHR '':'' \<in> set (take i s) then None
          else if CHR ''['' \<in> set s \<or> CHR '']'' \<in> set s then None
          else Some (take i s, drop (i + 1) s))"

definition join_host_port :: "string \<Rightarrow> string \<Rightarrow> string" where
  "join_host_port host port =
     (if CHR '':'' \<in> set host then ''['' @ host @ '']:'' @ port else host @ '':'' @ port)"

lemma last_index_append: "c \<notin> set t \<Longrightarrow> last_index c (s @ c # t) = Some (length s)"
proof -
  assume t: "c \<notin> set t"
  have "index_of (rev t @ c # rev s) [c] = Some (length t)" using t
  proof -
    have "index_of (u @ c # v) [c] = Some (length u)" if "c \<notin> set u" for u v
      using that by (induction u) auto
    from this [of "rev t"] t show ?thesis by simp
  qed
  then show ?thesis by (simp add: last_index_def)
qed

lemma last_index_Some:
  assumes "last_index c s = Some i"
  shows "s = take i s @ c # drop (i + 1) s \<and> c \<notin> set (drop (i + 1) s)"
proof -
  have "c \<in> set s"
    using assms index_of_char_None [of "rev s" c] by (auto simp: last_index_def split: option.splits)
  then obtain u v where "s = u @ c # v" "c \<notin> set v" by (meson split_list_last)
  with assms last_index_append [of c v u] show ?thesis by auto
qed

text \<open>What is joined splits again; what splits joins again, brackets around a plain host apart.\<close>

lemma split_join_host_port:
  assumes "CHR ''['' \<notin> set host" "CHR '']'' \<notin> set host"
    and "CHR '':'' \<notin> set port" "CHR ''['' \<notin> set port" "CHR '']'' \<notin> set port"
  shows "split_host_port (join_host_port host port) = Some (host, port)"
proof (cases "CHR '':'' \<in> set host")
  case True
  have last: "last_index (CHR '':'') (''['' @ host @ '']:'' @ port) = Some (length host + 2)"
    using last_index_append [OF assms(3), of "''['' @ host @ '']''"] by simp
  have "index_of (u @ CHR '']'' # v) '']'' = Some (length u)" if "CHR '']'' \<notin> set u" for u v
    using that by (induction u) auto
  from this [of "''['' @ host" "'':'' @ port"] assms(2)
  have "index_of (''['' @ host @ '']:'' @ port) '']'' = Some (length host + 1)" by simp
  with last True assms show ?thesis
    by (simp add: join_host_port_def split_host_port_def)
next
  case False
  have last: "last_index (CHR '':'') (host @ '':'' @ port) = Some (length host)"
    using last_index_append [OF assms(3), of host] by simp
  have "\<not> has_prefix (host @ '':'' @ port) ''[''" using assms(1) by (cases host) auto
  with last False assms show ?thesis
    by (simp add: join_host_port_def split_host_port_def)
qed

lemma split_host_port_port:
  assumes "split_host_port s = Some (host, port)"
  shows "CHR '':'' \<notin> set port" "CHR ''['' \<notin> set port" "CHR '']'' \<notin> set port"
    "CHR ''['' \<notin> set host" "CHR '']'' \<notin> set host"
proof -
  obtain i where i: "last_index (CHR '':'') s = Some i" and port: "port = drop (i + 1) s"
    using assms by (auto simp: split_host_port_def split: option.splits if_splits)
  show "CHR '':'' \<notin> set port" using last_index_Some [OF i] port by simp
  have later: "x \<in> set (drop (i + 1) s) \<Longrightarrow> x \<in> set (drop j s)" if "j \<le> i + 1" for j x
    using that set_drop_subset_set_drop by fastforce
  have earlier: "x \<in> set (take (e - 1) (drop 1 s)) \<Longrightarrow> x \<in> set (take e s)" for e x
    by (metis drop_take in_set_dropD)
  have close: "CHR '']'' \<notin> set (take e s)" if "index_of s '']'' = Some e" for e
    using index_of_char [OF that] by simp
  show "CHR ''['' \<notin> set port" "CHR '']'' \<notin> set port" "CHR ''['' \<notin> set host" "CHR '']'' \<notin> set host"
    using assms i later [of 1] later [of i] close earlier
    by (auto simp: split_host_port_def split: option.splits if_splits dest: in_set_takeD in_set_dropD)
qed

section \<open>Address classes\<close>

definition is_unspecified :: "addr \<Rightarrow> bool" where
  "is_unspecified a \<longleftrightarrow> a = V4 0 \<or> a = V6 0 []"

fun loopback :: "addr \<Rightarrow> bool" where
  "loopback (V4 w) \<longleftrightarrow> octet 3 w = 127"
| "loopback (V6 w zone) \<longleftrightarrow> w = 1"

definition is_loopback :: "addr \<Rightarrow> bool" where
  "is_loopback a \<longleftrightarrow> loopback (if is_4in6 a then unmap a else a)"

section \<open>Lower case\<close>

fun to_lower :: "string \<Rightarrow> string" where
  "to_lower [] = []"
| "to_lower (c # s) =
     (if c = CHR 0xE2 \<and> has_prefix s [CHR 0x84, CHR 0xAA] then CHR ''k'' # to_lower (drop 2 s)
      else if c = CHR 0xC4 \<and> has_prefix s [CHR 0xB0] then CHR ''i'' # to_lower (drop 1 s)
      else ascii_lower c # to_lower s)"

section \<open>Base 64\<close>

definition base64_char :: "nat \<Rightarrow> char" where
  "base64_char n =
     (if n < 26 then char_of (65 + n)
      else if n < 52 then char_of (71 + n)
      else if n < 62 then char_of (n - 4)
      else if n = 62 then CHR ''-''
      else CHR ''_'')"

fun base64 :: "nat list \<Rightarrow> string" where
  "base64 [] = []"
| "base64 [a] = map base64_char [a div 4, (a mod 4) * 16]"
| "base64 [a, b] = map base64_char [a div 4, (a mod 4) * 16 + b div 16, (b mod 16) * 4]"
| "base64 (a # b # c # bytes) =
     map base64_char [a div 4, (a mod 4) * 16 + b div 16, (b mod 16) * 4 + c div 64, c mod 64] @
     base64 bytes"


text \<open>What is encoded can be read back: no two byte strings have the same text.\<close>

lemma base64_char_inject: "m < 64 \<Longrightarrow> n < 64 \<Longrightarrow> base64_char m = base64_char n \<Longrightarrow> m = n"
proof -
  have code: "(of_char (base64_char k) :: nat) =
      (if k < 26 then 65 + k else if k < 52 then 71 + k else if k < 62 then k - 4 else if k = 62 then 45 else 95)"
    if "k < 64" for k
    using that by (simp add: base64_char_def)
  assume m: "m < 64" "n < 64" "base64_char m = base64_char n"
  then have "(of_char (base64_char m) :: nat) = of_char (base64_char n)" by simp
  with m(1,2) show "m = n" by (simp add: code split: if_splits)
qed

lemma length_base64: "length (base64 bytes) = (length bytes * 4 + 2) div 3"
  by (induction bytes rule: base64.induct) auto

lemma base64_pieces:
  fixes a b :: nat
  assumes "a < 256" "b < 256"
  shows "a div 4 < 64" "(a mod 4) * 16 < 64" "(a mod 4) * 16 + b div 16 < 64" "(b mod 16) * 4 < 64"
    "(a mod 16) * 4 + b div 64 < 64" "a mod 64 < 64"
  using assms by auto

lemma base64_alphabet: "list_all (\<lambda>b. b < 256) raw \<Longrightarrow> set (base64 raw) \<subseteq> base64_char ` {..< 64}"
  by (induction raw rule: base64.induct) (auto simp: base64_pieces intro!: imageI)

lemma two_digits:
  fixes x y k :: nat
  assumes "x * k + y = x' * k + y'" "y < k" "y' < k"
  shows "x = x'" "y = y'"
proof -
  have "(x * k + y) div k = x" "(x' * k + y') div k = x'" using assms(2,3) by simp_all
  with assms(1) show "x = x'" by simp
  with assms(1) show "y = y'" by simp
qed

lemma same_sextets:
  fixes a b c :: nat
  assumes "a div 4 = a' div 4" "(a mod 4) * 16 + b div 16 = (a' mod 4) * 16 + b' div 16"
    and "b < 256" "b' < 256"
  shows "a = a'" "b div 16 = b' div 16"
proof -
  have "b div 16 < 16" "b' div 16 < 16" using assms(3,4) by auto
  note ab = two_digits [OF assms(2) this]
  show "b div 16 = b' div 16" by (rule ab(2))
  show "a = a'"
    using assms(1) ab(1) div_mult_mod_eq [of a 4] div_mult_mod_eq [of a' 4] by linarith
qed

lemma same_last_sextets:
  fixes b c :: nat
  assumes "b div 16 = b' div 16" "(b mod 16) * 4 + c div 64 = (b' mod 16) * 4 + c' div 64"
    and "c mod 64 = c' mod 64" "c < 256" "c' < 256"
  shows "b = b'" "c = c'"
proof -
  have "c div 64 < 4" "c' div 64 < 4" using assms(4,5) by auto
  note bc = two_digits [OF assms(2) this]
  show "b = b'"
    using assms(1) bc(1) div_mult_mod_eq [of b 16] div_mult_mod_eq [of b' 16] by linarith
  show "c = c'"
    using assms(3) bc(2) div_mult_mod_eq [of c 64] div_mult_mod_eq [of c' 64] by linarith
qed

lemma base64_inject:
  "length xs = length ys \<Longrightarrow> list_all (\<lambda>a. a < 256) xs \<Longrightarrow> list_all (\<lambda>a. a < 256) ys \<Longrightarrow>
   base64 xs = base64 ys \<Longrightarrow> xs = ys"
proof (induction xs arbitrary: ys rule: base64.induct)
  case (2 a)
  from "2.prems"(1) [symmetric] obtain a' where ys: "ys = [a']" by (auto simp: length_Suc_conv)
  with "2.prems" have "a div 4 = a' div 4" "(a mod 4) * 16 = (a' mod 4) * 16"
    by (auto dest!: base64_char_inject [rotated 2] simp: base64_pieces)
  with same_sextets [of a a' 0 0] ys show ?case by simp
next
  case (3 a b)
  from "3.prems"(1) [symmetric] obtain a' b' where ys: "ys = [a', b']" by (auto simp: length_Suc_conv)
  with "3.prems" have "a div 4 = a' div 4" "(a mod 4) * 16 + b div 16 = (a' mod 4) * 16 + b' div 16"
    "(b mod 16) * 4 = (b' mod 16) * 4" "b < 256" "b' < 256"
    by (auto dest!: base64_char_inject [rotated 2] simp: base64_pieces)
  with same_sextets [of a a' b b'] same_last_sextets [of b b' 0 0] ys show ?case by simp
next
  case (4 a b c bytes)
  from "4.prems"(1) [symmetric] obtain a' b' c' rest where ys: "ys = a' # b' # c' # rest"
    by (auto simp: length_Suc_conv)
  with 4 have "bytes = rest" by simp
  moreover from "4.prems" ys have e: "base64_char (a div 4) = base64_char (a' div 4)"
    "base64_char ((a mod 4) * 16 + b div 16) = base64_char ((a' mod 4) * 16 + b' div 16)"
    "base64_char ((b mod 16) * 4 + c div 64) = base64_char ((b' mod 16) * 4 + c' div 64)"
    "base64_char (c mod 64) = base64_char (c' mod 64)"
    and small: "a < 256" "b < 256" "c < 256" "a' < 256" "b' < 256" "c' < 256"
    by simp_all
  note p = base64_pieces [OF small(1,2)] base64_pieces [OF small(2,3)] base64_pieces [OF small(3,1)]
    base64_pieces [OF small(4,5)] base64_pieces [OF small(5,6)] base64_pieces [OF small(6,4)]
  have "a div 4 = a' div 4" "(a mod 4) * 16 + b div 16 = (a' mod 4) * 16 + b' div 16"
    "(b mod 16) * 4 + c div 64 = (b' mod 16) * 4 + c' div 64" "c mod 64 = c' mod 64"
    using e by (blast intro: base64_char_inject p)+
  with same_sextets [of a a' b b'] same_last_sextets [of b b' c c'] small
  have "a = a' \<and> b = b' \<and> c = c'" by blast
  ultimately show ?case by (simp add: ys)
qed simp

end
