(* ===== verification/Startup.thy ===== *)
theory Startup
  imports Live Pacing Redact Go_Net
begin

text \<open>
  \<open>cmd/keymaker\<close> up to the moment the server listens, and \<open>NewToken\<close> of \<open>internal/httpapi/auth.go\<close>:
  the reading of the environment and of the configuration, the two tokens, the address printed for
  the reader, the choice of what the server is built from, and the address the health check dials.
  The operating system is an argument: the environment, the opened file, the random bytes, the SDK
  table and the parser of the public address. The command line and the listening are in \<open>Process\<close>.
  The lemmas follow the secrets and the access token from where they enter to where they are used.
\<close>

section \<open>Addresses\<close>

definition defaultAddr :: string where "defaultAddr = ''127.0.0.1:8080''"

definition defaultConfigPath :: string where "defaultConfigPath = ''/config/ovh.conf''"

text \<open>A \<open>url.URL\<close> with a scheme; the user information and the fragment are kept as they print.\<close>

record url =
  u_scheme :: string
  u_user :: string
  u_host :: string
  u_path :: string
  u_query :: string
  u_fragment :: string

definition escape_host :: "string \<Rightarrow> string" where
  "escape_host h =
     concat (map (\<lambda>b. if ascii_alnum b \<or> b \<in> set ''-_.~!$&()*+,;=:[]<>'' \<or> b \<in> {CHR 0x22, CHR 0x27}
                       then [b] else percent b) h)"

definition url_origin :: "url \<Rightarrow> string" where
  "url_origin u = u_scheme u @ ''://'' @ u_user u @ escape_host (u_host u)"

definition url_string :: "url \<Rightarrow> string" where
  "url_string u =
     url_origin u @
     (if u_path u \<noteq> [] \<and> hd (u_path u) \<noteq> CHR ''/'' \<and> u_host u \<noteq> [] then ''/'' else []) @
     escape_path (u_path u) @
     (if u_query u = [] then [] else CHR ''?'' # u_query u) @ u_fragment u"

definition entryPoint :: "url \<Rightarrow> string \<Rightarrow> string" where
  "entryPoint public token =
     url_string (public\<lparr>u_path := ''/'', u_query := encode_values [(tokenParameter, token)]\<rparr>)"

definition plain_url :: "string \<Rightarrow> url" where
  "plain_url host =
     \<lparr>u_scheme = ''http'', u_user = [], u_host = host, u_path = [], u_query = [], u_fragment = []\<rparr>"

definition listenURL :: "string \<Rightarrow> url" where
  "listenURL addr =
     (case split_host_port addr of
        None \<Rightarrow> plain_url addr
      | Some (host, port) \<Rightarrow>
          (let host = (if host = [] \<or> (case parse_addr host of None \<Rightarrow> False | Some ip \<Rightarrow> is_unspecified ip)
                       then ''127.0.0.1'' else host)
           in plain_url (join_host_port host port)))"

definition baseURL :: "(string \<Rightarrow> url option) \<Rightarrow> string \<Rightarrow> string \<Rightarrow> err + url" where
  "baseURL url_parse addr public =
     (if public = [] then Inr (listenURL addr)
      else (case url_parse public of
              None \<Rightarrow> Inl (Failure ''KEYMAKER_PUBLIC_URL'')
            | Some parsed \<Rightarrow>
                if u_scheme parsed = [] \<or> u_host parsed = []
                then Inl (Failure ''KEYMAKER_PUBLIC_URL must be absolute'') else Inr parsed))"

definition bindsLoopback :: "string \<Rightarrow> bool" where
  "bindsLoopback addr =
     (case split_host_port addr of
        None \<Rightarrow> False
      | Some (host, _) \<Rightarrow> (case parse_addr host of None \<Rightarrow> False | Some ip \<Rightarrow> is_loopback ip))"

section \<open>The health check\<close>

definition probeURL :: "string \<Rightarrow> err + string" where
  "probeURL addr =
     (case split_host_port addr of
        None \<Rightarrow> Inl (Failure ''KEYMAKER_ADDR'')
      | Some (host, port) \<Rightarrow>
          (let host = (if host = [] \<or> host = ''0.0.0.0'' then ''127.0.0.1''
                       else if host = ''::'' then ''::1'' else host)
           in Inr (''http://'' @ join_host_port host port @ ''/healthz'')))"

text \<open>One request, answered with a status or failing before an answer.\<close>

definition healthcheck :: "(string \<Rightarrow> ('w, err + int) op) \<Rightarrow> string \<Rightarrow> ('w, err option) op" where
  "healthcheck get addr w =
     (case probeURL addr of
        Inl e \<Rightarrow> (Some e, w)
      | Inr target \<Rightarrow>
          (let (r, w') = get target w in
           (case r of
              Inl e \<Rightarrow> Some (Wrap [e])
            | Inr status \<Rightarrow> if status \<noteq> 200 then Some (Failure ''health check'') else None, w')))"

section \<open>The environment\<close>

datatype level = LevelDebug | LevelInfo | LevelWarn | LevelError

definition logLevel :: "string \<Rightarrow> err + level" where
  "logLevel value =
     (let v = to_lower (trim_space value) in
      if v = [] \<or> v = ''info'' then Inr LevelInfo
      else if v = ''debug'' then Inr LevelDebug
      else if v = ''warn'' \<or> v = ''warning'' then Inr LevelWarn
      else if v = ''error'' then Inr LevelError
      else Inl (Failure ''KEYMAKER_LOG_LEVEL''))"

definition environment :: "(string \<Rightarrow> string) \<Rightarrow> string \<Rightarrow> string \<Rightarrow> string" where
  "environment getenv name fallback = (let v = getenv name in if v \<noteq> [] then v else fallback)"

definition load :: "err + (string \<times> bool) \<Rightarrow> err + (account \<times> redactor)" where
  "load opened =
     (case Load opened of
        Inl e \<Rightarrow> Inl e
      | Inr cfg \<Rightarrow>
          (case Account cfg of
             Inl e \<Rightarrow> Inl e
           | Inr account \<Rightarrow>
               Inr (account, redactor_Add [lc_application_secret (acc_management account),
                                           lc_consumer_key (acc_management account)] [])))"

definition tokenBytes :: nat where "tokenBytes = 32"

definition NewToken :: "(nat \<Rightarrow> ('w, err + nat list) op) \<Rightarrow> ('w, err + string) op" where
  "NewToken rand w =
     (let (r, w') = rand tokenBytes w
      in (case r of Inl e \<Rightarrow> Inl e | Inr raw \<Rightarrow> Inr (base64 raw), w'))"

section \<open>Starting\<close>

record 'w host =
  ho_getenv :: "string \<Rightarrow> string"
  ho_open :: "string \<Rightarrow> err + (string \<times> bool)"
  ho_rand :: "nat \<Rightarrow> ('w, err + nat list) op"
  ho_url_parse :: "string \<Rightarrow> url option"
  ho_sdk_endpoints :: "string \<Rightarrow> string option"
  ho_set_endpoint :: "string \<Rightarrow> err option"

record started =
  st_account :: account
  st_redactor :: redactor
  st_level :: level
  st_client :: sdk_client
  st_token :: string
  st_csrf :: string
  st_public :: url
  st_warned :: bool
  st_printed :: string

definition run :: "'w host \<Rightarrow> ('w, err + started) op" where
  "run h w =
     (let addr = environment (ho_getenv h) ''KEYMAKER_ADDR'' defaultAddr in
      case load (ho_open h (environment (ho_getenv h) ''KEYMAKER_CONFIG'' defaultConfigPath)) of
        Inl e \<Rightarrow> (Inl e, w)
      | Inr (account, redactor) \<Rightarrow>
      (case logLevel (ho_getenv h ''KEYMAKER_LOG_LEVEL'') of
        Inl e \<Rightarrow> (Inl e, w)
      | Inr level \<Rightarrow>
      (case NewAPIClient (ho_sdk_endpoints h) (ho_set_endpoint h) account of
        Inl e \<Rightarrow> (Inl e, w)
      | Inr client \<Rightarrow>
      (let (token, w1) = NewToken (ho_rand h) w in
      case token of
        Inl e \<Rightarrow> (Inl e, w1)
      | Inr token \<Rightarrow>
      (let (csrf, w2) = NewToken (ho_rand h) w1 in
      case csrf of
        Inl e \<Rightarrow> (Inl e, w2)
      | Inr csrf \<Rightarrow>
      (case baseURL (ho_url_parse h) addr (ho_getenv h ''KEYMAKER_PUBLIC_URL'') of
        Inl e \<Rightarrow> (Inl e, w2)
      | Inr public \<Rightarrow>
          (Inr \<lparr>st_account = account, st_redactor = redactor, st_level = level, st_client = client,
                st_token = token, st_csrf = csrf, st_public = public,
                st_warned = (\<not> bindsLoopback addr), st_printed = entryPoint public token\<rparr>, w2)))))))"

text \<open>
  What the server of a started process works with, beside the SDK client, the pools, the lookup and
  the catalogue, which live as long as the process.
\<close>

definition serving ::
  "'w host \<Rightarrow> started \<Rightarrow> 'w sdk \<Rightarrow> 'w net scheduler \<Rightarrow> ('w, lookup) op \<Rightarrow> ('w net \<Rightarrow> snapshot) \<Rightarrow>
   string \<Rightarrow> 'w surroundings" where
  "serving h p sdk scheduler ask routes version =
     \<lparr>su_sdk = sdk, su_endpoints = ho_sdk_endpoints h, su_scheduler = scheduler,
      su_lookup = ask, su_lookup_setting = ho_getenv h ''KEYMAKER_IP_LOOKUP'',
      su_catalog = routes, su_token = st_token p, su_csrf = st_csrf p,
      su_endpoint = acc_endpoint (st_account p), su_version = version,
      su_secure = (u_scheme (st_public p) = ''https'')\<rparr>"

section \<open>The tokens\<close>

text \<open>A host with one account and the same random bytes for ever serves the witnesses.\<close>

definition same_bytes :: "nat \<Rightarrow> ('w, err + nat list) op" where
  "same_bytes n w = (Inr (replicate n 7), w)"

definition small_host :: "'w host" where
  "small_host =
     \<lparr>ho_getenv = (\<lambda>name. if name = ''KEYMAKER_ADDR'' then '':8080'' else []),
      ho_open = (\<lambda>_. Inr (join_with [CHR 0x0A] [''[ovh-eu]'', ''application_key=ak'',
        ''application_secret=s3cr3t'', ''consumer_key=k3y''], False)),
      ho_rand = same_bytes, ho_url_parse = (\<lambda>_. None),
      ho_sdk_endpoints = (\<lambda>_. Some ''https://eu.api.ovh.com/1.0''), ho_set_endpoint = (\<lambda>_. None)\<rparr>"

lemma small_host_starts: "\<exists>p. run small_host w = (Inr p, w) \<and> sc_consumer_key (st_client p) = ''k3y''"
proof -
  have "load (ho_open small_host ''/config/ovh.conf'') =
      Inr (\<lparr>acc_name = ''ovh-eu'', acc_endpoint = ''ovh-eu'', acc_management =
             \<lparr>lc_application_key = ''ak'', lc_application_secret = ''s3cr3t'', lc_consumer_key = ''k3y''\<rparr>\<rparr>,
           [''s3cr3t'', ''k3y''])"
    by code_simp
  moreover have "logLevel [] = Inr LevelInfo" by code_simp
  ultimately show ?thesis
    by (simp add: run_def small_host_def environment_def defaultConfigPath_def NewAPIClient_def endpointURL_def
        supportedEndpoints_def Complete_def NewToken_def same_bytes_def baseURL_def Let_def)
qed


definition fills :: "(nat \<Rightarrow> ('w, err + nat list) op) \<Rightarrow> bool" where
  "fills rand \<longleftrightarrow>
     (\<forall>n w raw w'. rand n w = (Inr raw, w') \<longrightarrow> length raw = n \<and> list_all (\<lambda>b. b < 256) raw)"

lemma fillsD: "fills rand \<Longrightarrow> rand n w = (Inr raw, w') \<Longrightarrow> length raw = n \<and> list_all (\<lambda>b. b < 256) raw"
  unfolding fills_def by blast

lemma base64_unreserved:
  assumes "list_all (\<lambda>b. b < 256) raw" "c \<in> set (base64 raw)"
  shows "ascii_alnum c \<or> c \<in> set ''-_''"
proof -
  obtain n where n: "n < 64" "c = base64_char n"
    using assms base64_alphabet [of raw] by auto
  have "48 \<le> n - 4 \<and> n - 4 \<le> 57" if "\<not> n < 52" "n < 62" using that by arith
  then show ?thesis
    using n by (auto simp: base64_char_def ascii_alnum_def is_digit_def less_eq_char_def)
qed

lemma query_escape_plain:
  "(\<And>c. c \<in> set s \<Longrightarrow> ascii_alnum c \<or> c \<in> set ''-_'') \<Longrightarrow> query_escape s = s"
  by (induction s) (auto simp: query_escape_def)

text \<open>
  A token is 43 characters that a URL and a cookie carry unchanged, and holds all of the random
  bytes: two tokens are the same only when their bytes were.
\<close>

lemma token_is_its_bytes:
  assumes "fills rand" "NewToken rand w = (Inr token, w1)" "NewToken rand' v = (Inr token', v1)" "fills rand'"
  shows "length token = 43 \<and> query_escape token = token \<and> list_all (\<lambda>c. ascii_alnum c \<or> c \<in> set ''-_'') token \<and>
    (token = token' \<longleftrightarrow> fst (rand 32 w) = fst (rand' 32 v))"
proof -
  obtain raw where raw: "rand 32 w = (Inr raw, w1)" "token = base64 raw"
    using assms(2) by (auto simp: NewToken_def tokenBytes_def Let_def split: prod.splits sum.splits)
  obtain raw' where raw': "rand' 32 v = (Inr raw', v1)" "token' = base64 raw'"
    using assms(3) by (auto simp: NewToken_def tokenBytes_def Let_def split: prod.splits sum.splits)
  have bytes: "length raw = 32" "list_all (\<lambda>b. b < 256) raw" "length raw' = 32" "list_all (\<lambda>b. b < 256) raw'"
    using fillsD [OF assms(1) raw(1)] fillsD [OF assms(4) raw'(1)] by simp_all
  have plain: "ascii_alnum c \<or> c \<in> set ''-_''" if "c \<in> set token" for c
    using base64_unreserved [OF bytes(2)] that by (simp add: raw(2))
  have "token = token' \<longleftrightarrow> raw = raw'"
    using base64_inject [of raw raw'] bytes by (auto simp: raw(2) raw'(2))
  then show ?thesis
    using plain query_escape_plain [of token] by (simp add: raw raw'(1) bytes(1) length_base64 list_all_iff)
qed

lemma token_is_its_bytes_witness:
  "length (base64 (replicate 32 7)) = 43 \<and> query_escape (base64 (replicate 32 7)) = base64 (replicate 32 7)"
proof -
  have f: "fills (same_bytes :: nat \<Rightarrow> (unit, err + nat list) op)" by (simp add: fills_def same_bytes_def list_all_iff)
  have t: "NewToken same_bytes () = (Inr (base64 (replicate 32 7)), ())"
    by (simp only: NewToken_def same_bytes_def tokenBytes_def Let_def prod.case sum.case)
  from token_is_its_bytes [OF f t t f] show ?thesis by simp
qed

section \<open>What a started process holds\<close>

lemma run_started:
  assumes "run h w = (Inr p, w')"
  shows "load (ho_open h (environment (ho_getenv h) ''KEYMAKER_CONFIG'' defaultConfigPath)) =
           Inr (st_account p, st_redactor p)"
    and "NewAPIClient (ho_sdk_endpoints h) (ho_set_endpoint h) (st_account p) = Inr (st_client p)"
    and "st_printed p = entryPoint (st_public p) (st_token p)"
    and "baseURL (ho_url_parse h) (environment (ho_getenv h) ''KEYMAKER_ADDR'' defaultAddr)
           (ho_getenv h ''KEYMAKER_PUBLIC_URL'') = Inr (st_public p)"
    and "st_warned p \<longleftrightarrow> \<not> bindsLoopback (environment (ho_getenv h) ''KEYMAKER_ADDR'' defaultAddr)"
    and "\<exists>w1. NewToken (ho_rand h) w = (Inr (st_token p), w1) \<and> NewToken (ho_rand h) w1 = (Inr (st_csrf p), w')"
  using assms by (auto simp: run_def Let_def split: prod.splits sum.splits)

lemma load_redactor:
  assumes "load opened = Inr (account, r)"
  shows "r = redactor_Add [lc_application_secret (acc_management account), lc_consumer_key (acc_management account)] []"
  using assms by (auto simp: load_def split: sum.splits)



text \<open>
  C37: The address the process prints opens a session: its query names the access token and nothing
  else, and following it without a cookie is answered with the session cookie, secure when the
  public address is, and a redirection to the front page that no longer carries the token.
\<close>

theorem printed_address_opens_session:
  assumes "run h w = (Inr p, w')"
  shows "\<exists>q. st_printed p = url_origin (st_public p) @ ''/?'' @ q @ u_fragment (st_public p) \<and>
    decode_query q = [(''token'', st_token p)] \<and>
    live_handle (serving h p sdk scheduler ask routes version) now
      \<lparr>hr_method = ''GET'', hr_raw_path = ''/'', hr_query = decode_query q, hr_cookie = None,
       hr_csrf = [], hr_addresses = None, hr_rules = None\<rparr> s =
    ((securityHeaders, Granted (st_token p) (u_scheme (st_public p) = ''https'') ''/''), s)"
proof (intro exI conjI)
  let ?q = "encode_values [(tokenParameter, st_token p)]"
  have "?q \<noteq> []" by (simp add: encode_values_def tokenParameter_def query_escape_def)
  moreover have "escape_path ''/'' = ''/''" by code_simp
  ultimately show "st_printed p = url_origin (st_public p) @ ''/?'' @ ?q @ u_fragment (st_public p)"
    using run_started(3) [OF assms] by (simp add: entryPoint_def url_string_def url_origin_def)
  show q: "decode_query ?q = [(''token'', st_token p)]"
    by (simp add: decode_encode_values tokenParameter_def)
  let ?d = "serving h p sdk scheduler ask routes version"
  have "sv_token (live_server ?d) = st_token p"
    "sv_secure_cookie (live_server ?d) = (u_scheme (st_public p) = ''https'')"
    by (simp_all add: serving_def)
  then show "live_handle ?d now
      \<lparr>hr_method = ''GET'', hr_raw_path = ''/'', hr_query = decode_query ?q, hr_cookie = None,
       hr_csrf = [], hr_addresses = None, hr_rules = None\<rparr> s =
    ((securityHeaders, Granted (st_token p) (u_scheme (st_public p) = ''https'') ''/''), s)"
    unfolding q live_handle_def by (subst open_front_page) simp_all
qed

theorem printed_address_opens_session_witness:
  "\<exists>p q. run small_host ([] :: api_credential list) = (Inr p, []) \<and> decode_query q = [(''token'', st_token p)] \<and>
     snd (fst (live_handle (serving small_host p (su_sdk small) (su_scheduler small) (su_lookup small)
        (su_catalog small) ''1'') 0
      \<lparr>hr_method = ''GET'', hr_raw_path = ''/'', hr_query = decode_query q, hr_cookie = None,
       hr_csrf = [], hr_addresses = None, hr_rules = None\<rparr> small_account)) =
     Granted (st_token p) (u_scheme (st_public p) = ''https'') ''/''"
proof -
  from small_host_starts [of "[] :: api_credential list"] obtain p where
    "run small_host ([] :: api_credential list) = (Inr p, []) \<and> sc_consumer_key (st_client p) = ''k3y''" by (rule exE)
  then have p: "run small_host ([] :: api_credential list) = (Inr p, [])" by (rule conjunct1)
  note opened = printed_address_opens_session [OF p, of "su_sdk small" "su_scheduler small"
      "su_lookup small" "su_catalog small" "''1''" 0 small_account]
  show ?thesis
    by (rule exE [OF opened], intro exI conjI, rule p, elim conjE, assumption, elim conjE, simp only: fst_conv snd_conv)
qed

text \<open>The probe goes to the host the process listens on, on the loopback or not.\<close>

lemma probe_follows_address: "probeURL ''192.0.2.7:8080'' = Inr ''http://192.0.2.7:8080/healthz''"
  by code_simp

text \<open>A process that does not warn listens on loopback, prints that address and is probed there.\<close>

lemma quiet_process_on_loopback:
  assumes "bindsLoopback addr"
  shows "\<exists>host port ip. split_host_port addr = Some (host, port) \<and> parse_addr host = Some ip \<and> is_loopback ip \<and>
    listenURL addr = plain_url (join_host_port host port) \<and>
    probeURL addr = Inr (''http://'' @ join_host_port host port @ ''/healthz'') \<and>
    split_host_port (join_host_port host port) = Some (host, port)"
proof -
  obtain host port ip where split: "split_host_port addr = Some (host, port)" "parse_addr host = Some ip" "is_loopback ip"
    using assms by (auto simp: bindsLoopback_def split: option.splits)
  have "\<not> is_unspecified ip"
    using split(3) by (auto simp: is_unspecified_def is_loopback_def octet_def split: if_splits)
  moreover have "parse_addr ''0.0.0.0'' = Some (V4 0)" "parse_addr ''::'' = Some (V6 0 [])" "parse_addr [] = None"
    by code_simp+
  ultimately have "host \<noteq> []" "host \<noteq> ''0.0.0.0''" "host \<noteq> ''::''"
    using split(2) by (auto simp: is_unspecified_def)
  with split \<open>\<not> is_unspecified ip\<close> show ?thesis
    using split_join_host_port [of host port] split_host_port_port [OF split(1)]
    by (simp add: listenURL_def probeURL_def)
qed

end
