(* ===== verification/Catalog_Run.thy ===== *)
theory Catalog_Run
  imports Catalog
begin

text \<open>
  \<open>internal/catalog/remote.go\<close>: the running catalogue, which is the embedded snapshot until a fetch
  succeeds. First the goroutine of \<open>RefreshInBackground\<close> alone, as a loop that may never return; then
  the same goroutine step by step, interleaved with the requests that call \<open>Current\<close>, as a step
  relation whose invariant says what those requests are handed; a loop that returns is a run of these
  steps (\<open>loop_is_a_run\<close>). The time limit of one attempt is
  part of the source, which may fail by it.
\<close>

section \<open>The published catalogue\<close>

record remote =
  re_fallback :: snapshot
  re_ready :: bool
  re_current :: snapshot

definition NewRemote :: "snapshot \<Rightarrow> remote" where
  "NewRemote fallback =
     (let fallback' = fallback\<lparr>sn_live := False\<rparr>
      in \<lparr>re_fallback = fallback', re_ready = False, re_current = fallback'\<rparr>)"

definition store_current :: "snapshot \<Rightarrow> remote \<Rightarrow> remote" where
  "store_current snap r = r\<lparr>re_current := snap\<rparr>"

definition close_ready :: "remote \<Rightarrow> remote" where
  "close_ready r = r\<lparr>re_ready := True\<rparr>"

definition publish :: "err + snapshot \<Rightarrow> remote \<Rightarrow> remote" where
  "publish fetched r =
     (case fetched of
        Inl _ \<Rightarrow> close_ready r
      | Inr snap \<Rightarrow> close_ready (store_current snap r))"

definition Refresh ::
  "'s scheduler \<Rightarrow> decoders \<Rightarrow> 's source \<Rightarrow> time \<Rightarrow> remote \<Rightarrow> ('s, err option \<times> remote) op" where
  "Refresh sched dec src now r s =
     (let (fetched, s') = Fetch sched dec src now s
      in ((case fetched of Inl e \<Rightarrow> Some e | Inr _ \<Rightarrow> None, publish fetched r), s'))"

text \<open>What the lock guards: whatever the select came back for, the published catalogue is read.\<close>

definition remote_Current :: "remote \<Rightarrow> snapshot" where
  "remote_Current r = re_current r"

lemma remote_fields [simp]:
  "re_current (store_current snap r) = snap" "re_ready (store_current snap r) = re_ready r"
  "re_fallback (store_current snap r) = re_fallback r"
  "re_current (close_ready r) = re_current r" "re_ready (close_ready r)"
  "re_fallback (close_ready r) = re_fallback r"
  by (simp_all add: store_current_def close_ready_def)

lemma NewRemote_fields [simp]:
  "re_current (NewRemote fallback) = fallback\<lparr>sn_live := False\<rparr>" "\<not> re_ready (NewRemote fallback)"
  "re_fallback (NewRemote fallback) = fallback\<lparr>sn_live := False\<rparr>"
  by (simp_all add: NewRemote_def Let_def)

lemma Fetch_live: "fst (Fetch sched dec src now s) = Inr snap \<Longrightarrow> sn_live snap"
  by (auto simp: Fetch_def Let_def split_beta split: sum.splits)

section \<open>The loop of the background refresh\<close>

definition retryDelays :: "duration list" where
  "retryDelays = [10 * second_ns, 30 * second_ns, 60 * second_ns, 300 * second_ns]"

definition retry_delay :: "nat \<Rightarrow> duration" where
  "retry_delay attempt = retryDelays ! min attempt (length retryDelays - 1)"

text \<open>
  \<open>wait\<close> pauses, and says whether the context ended first. The loop has no bound: it is \<open>None\<close> when
  every attempt fails and the context never ends.
\<close>

partial_function (option) refresh_loop ::
  "(nat \<Rightarrow> remote \<Rightarrow> ('s, err option \<times> remote) op) \<Rightarrow> (duration \<Rightarrow> ('s, bool) op) \<Rightarrow> nat \<Rightarrow> remote \<Rightarrow>
   's \<Rightarrow> (remote \<times> 's) option" where
  "refresh_loop refresh wait attempt r s =
     (let ((e, r'), s1) = refresh attempt r s in
      if e = None then Some (r', s1)
      else (let (ended, s2) = wait (retry_delay attempt) s1 in
            if ended then Some (r', s2) else refresh_loop refresh wait (attempt + 1) r' s2))"

text \<open>\<open>clock n\<close> is the time at which the documents of attempt \<open>n\<close> were in.\<close>

definition RefreshInBackground ::
  "'s scheduler \<Rightarrow> decoders \<Rightarrow> 's source \<Rightarrow> (nat \<Rightarrow> time) \<Rightarrow> (duration \<Rightarrow> ('s, bool) op) \<Rightarrow> remote \<Rightarrow>
   's \<Rightarrow> (remote \<times> 's) option" where
  "RefreshInBackground sched dec src clock wait =
     refresh_loop (\<lambda>n. Refresh sched dec src (clock n)) wait 0"

text \<open>The state in which attempt \<open>n\<close> starts, when no earlier one ended the loop.\<close>

fun attempt_state ::
  "(nat \<Rightarrow> ('s, err + snapshot) op) \<Rightarrow> (duration \<Rightarrow> ('s, bool) op) \<Rightarrow> nat \<Rightarrow> 's \<Rightarrow> 's" where
  "attempt_state fetch wait 0 s = s"
| "attempt_state fetch wait (Suc n) s =
     snd (wait (retryDelays ! min n 3) (snd (fetch n (attempt_state fetch wait n s))))"

definition attempt_ends ::
  "(nat \<Rightarrow> ('s, err + snapshot) op) \<Rightarrow> (duration \<Rightarrow> ('s, bool) op) \<Rightarrow> nat \<Rightarrow> 's \<Rightarrow> bool" where
  "attempt_ends fetch wait n s \<longleftrightarrow>
     (case fetch n (attempt_state fetch wait n s) of
        (Inr _, _) \<Rightarrow> True
      | (Inl _, s1) \<Rightarrow> fst (wait (retryDelays ! min n 3) s1))"


abbreviation refreshes ::
  "(nat \<Rightarrow> ('s, err + snapshot) op) \<Rightarrow> nat \<Rightarrow> remote \<Rightarrow> ('s, err option \<times> remote) op" where
  "refreshes fetch \<equiv> (\<lambda>n r s.
     (let (fetched, s') = fetch n s
      in ((case fetched of Inl e \<Rightarrow> Some e | Inr _ \<Rightarrow> None, publish fetched r), s')))"

lemma retry_delay_table: "retry_delay n = retryDelays ! min n 3"
  by (simp add: retry_delay_def retryDelays_def numeral_3_eq_3)

lemma close_ready_twice [simp]: "close_ready (close_ready r) = close_ready r"
  by (simp add: close_ready_def)

lemma refresh_loop_failed:
  assumes "\<And>k. k < n \<Longrightarrow> \<not> attempt_ends fetch wait k s"
  shows "refresh_loop (refreshes fetch) wait 0 r s =
    refresh_loop (refreshes fetch) wait n (if n = 0 then r else close_ready r) (attempt_state fetch wait n s)"
  using assms
proof (induction n)
  case (Suc n)
  let ?s = "attempt_state fetch wait n s"
  obtain e where e: "fetch n ?s = (Inl e, snd (fetch n ?s))"
    "\<not> fst (wait (retryDelays ! min n 3) (snd (fetch n ?s)))"
    using Suc.prems [of n] by (cases "fetch n ?s"; cases "fst (fetch n ?s)") (auto simp: attempt_ends_def)
  have fetched: "fst (fetch n ?s) = Inl e" by (subst e(1)) simp
  have "refresh_loop (refreshes fetch) wait 0 r s =
      refresh_loop (refreshes fetch) wait n (if n = 0 then r else close_ready r) ?s"
    using Suc by auto
  also have "\<dots> = refresh_loop (refreshes fetch) wait (Suc n) (close_ready r) (attempt_state fetch wait (Suc n) s)"
    by (subst refresh_loop.simps) (simp add: Let_def split_beta fetched publish_def retry_delay_table e(2))
  finally show ?case by simp
qed simp

lemma refresh_loop_ends:
  assumes "attempt_ends fetch wait n s"
  shows "\<exists>s'. refresh_loop (refreshes fetch) wait n r (attempt_state fetch wait n s) =
    Some (publish (fst (fetch n (attempt_state fetch wait n s))) r, s')"
  using assms
  by (subst refresh_loop.simps)
    (auto simp: attempt_ends_def Let_def split_beta retry_delay_table split: sum.splits)

lemma refresh_loop_returned:
  assumes "refresh_loop refresh wait n r t = Some res"
  shows "refresh = refreshes fetch \<longrightarrow> t = attempt_state fetch wait n s \<longrightarrow> (\<exists>k. attempt_ends fetch wait k s)"
proof (rule refresh_loop.raw_induct [where P = "\<lambda>refresh wait n r t res.
    refresh = refreshes fetch \<longrightarrow> t = attempt_state fetch wait n s \<longrightarrow> (\<exists>k. attempt_ends fetch wait k s)", OF _ assms])
  fix loop refresh wait n r t res
  assume IH: "\<And>refresh wait n r t res. loop refresh wait n r t = Some res \<Longrightarrow>
      refresh = refreshes fetch \<longrightarrow> t = attempt_state fetch wait n s \<longrightarrow> (\<exists>k. attempt_ends fetch wait k s)"
    and step: "(let ((e, r'), s1) = refresh n r t in
      if e = None then Some (r', s1)
      else (let (ended, s2) = wait (retry_delay n) s1 in
            if ended then Some (r', s2) else loop refresh wait (n + 1) r' s2)) = Some res"
  show "refresh = refreshes fetch \<longrightarrow> t = attempt_state fetch wait n s \<longrightarrow> (\<exists>k. attempt_ends fetch wait k s)"
  proof (intro impI)
    assume r0: "refresh = refreshes fetch" and t: "t = attempt_state fetch wait n s"
    show "\<exists>k. attempt_ends fetch wait k s"
    proof (cases "attempt_ends fetch wait n s")
      case False
      then obtain e where e: "fst (fetch n t) = Inl e" "\<not> fst (wait (retryDelays ! min n 3) (snd (fetch n t)))"
        by (cases "fst (fetch n t)") (auto simp: attempt_ends_def t split_beta split: sum.splits)
      have "loop refresh wait (Suc n) (close_ready r) (attempt_state fetch wait (Suc n) s) = Some res"
        using step e by (simp add: Let_def split_beta r0 t publish_def retry_delay_table)
      from IH [OF this] r0 show ?thesis by blast
    qed blast
  qed
qed

text \<open>
  C34: Left alone, the goroutine returns exactly when some attempt succeeds or the context ends in
  the wait after one that failed, whatever the number of attempts before it, and each wait is the
  next of the table of delays, the last one repeating. When it returns the first refresh is over,
  and the explorer browses the catalogue of the attempt that succeeded, or the embedded snapshot,
  marked as not live, when none did.
\<close>

theorem background_refresh:
  "let fetch = (\<lambda>n. Fetch sched dec src (clock n));
       run = RefreshInBackground sched dec src clock wait (NewRemote fallback) s
   in (run \<noteq> None \<longleftrightarrow> (\<exists>n. attempt_ends fetch wait n s)) \<and>
      (\<forall>n. attempt_ends fetch wait n s \<longrightarrow> (\<forall>k<n. \<not> attempt_ends fetch wait k s) \<longrightarrow>
         (\<exists>r s'. run = Some (r, s') \<and> re_ready r \<and>
            remote_Current r = (case fst (fetch n (attempt_state fetch wait n s)) of
                Inr snap \<Rightarrow> snap | Inl _ \<Rightarrow> fallback\<lparr>sn_live := False\<rparr>)))"
proof -
  define fetch where "fetch = (\<lambda>n. Fetch sched dec src (clock n))"
  define run where "run = RefreshInBackground sched dec src clock wait (NewRemote fallback) s"
  have "(\<lambda>n. Refresh sched dec src (clock n)) = refreshes fetch"
    by (intro ext) (simp add: Refresh_def fetch_def)
  then have run: "run = refresh_loop (refreshes fetch) wait 0 (NewRemote fallback) s"
    by (simp add: run_def RefreshInBackground_def)
  have ends: "\<exists>r s'. run = Some (r, s') \<and> re_ready r \<and>
      remote_Current r = (case fst (fetch n (attempt_state fetch wait n s)) of
        Inr snap \<Rightarrow> snap | Inl _ \<Rightarrow> fallback\<lparr>sn_live := False\<rparr>)"
    if n: "attempt_ends fetch wait n s" "\<forall>k<n. \<not> attempt_ends fetch wait k s" for n
  proof -
    let ?r = "if n = 0 then NewRemote fallback else close_ready (NewRemote fallback)"
    have "run = refresh_loop (refreshes fetch) wait n ?r (attempt_state fetch wait n s)"
      unfolding run by (rule refresh_loop_failed) (use n(2) in blast)
    with refresh_loop_ends [OF n(1), of ?r] show ?thesis
      by (elim exE, intro exI conjI, simp) (simp_all add: publish_def remote_Current_def split: sum.split)
  qed
  have "run \<noteq> None \<longleftrightarrow> (\<exists>n. attempt_ends fetch wait n s)"
  proof
    show "run \<noteq> None \<Longrightarrow> \<exists>n. attempt_ends fetch wait n s"
      using refresh_loop_returned [of "refreshes fetch" wait 0 "NewRemote fallback" s _ fetch s] by (auto simp: run)
    assume "\<exists>n. attempt_ends fetch wait n s"
    then obtain n where "attempt_ends fetch wait n s" "\<forall>k<n. \<not> attempt_ends fetch wait k s"
      using exists_least_iff [of "\<lambda>n. attempt_ends fetch wait n s"] by blast
    from ends [OF this] show "run \<noteq> None" by blast
  qed
  with ends show ?thesis unfolding Let_def fetch_def run_def by blast
qed

text \<open>A source that cannot be reached at first, and can after one wait.\<close>

definition late_source :: "nat source" where
  "late_source =
     \<lparr>src_index = (\<lambda>s. (if s = 0 then Inl (Failure ''no route'') else Inr ''index'', s)),
      src_schema = (\<lambda>path s. (Inr path, s))\<rparr>"

definition small_decoders :: decoders where
  "small_decoders =
     \<lparr>de_index = (\<lambda>_. Some [''/me'']),
      de_schema = (\<lambda>doc. Some [(doc, [\<lparr>so_method = ''GET'', so_description = [], so_status = []\<rparr>])])\<rparr>"

theorem background_refresh_witness:
  "\<exists>r s'. RefreshInBackground (\<lambda>_ n. [0 ..< n]) small_decoders late_source (\<lambda>n. int n)
       (\<lambda>_ s. (False, s + 1)) (NewRemote zero_snapshot) 0 = Some (r, s') \<and> re_ready r \<and>
     sn_live (remote_Current r)"
proof -
  let ?fetch = "\<lambda>n. Fetch (\<lambda>_ n. [0 ..< n]) small_decoders late_source (int n)"
  let ?wait = "\<lambda>(_ :: duration) s. (False, s + (1 :: nat))"
  have first: "?fetch 0 0 = (Inl (Wrap [Failure ''no route'']), 0)" by code_simp
  have "(case ?fetch 1 1 of (Inr snap, _) \<Rightarrow> sn_live snap | (Inl _, _) \<Rightarrow> False)" by code_simp
  then obtain snap t where second: "?fetch 1 1 = (Inr snap, t)" "sn_live snap"
    by (cases "?fetch 1 1"; cases "fst (?fetch 1 1)") auto
  have 0: "\<not> attempt_ends ?fetch ?wait 0 0" and state: "attempt_state ?fetch ?wait 1 0 = 1"
    using first by (simp_all add: attempt_ends_def)
  then have 1: "attempt_ends ?fetch ?wait 1 0" using second by (simp add: attempt_ends_def)
  from background_refresh [of "\<lambda>_ n. [0 ..< n]" small_decoders late_source "\<lambda>n. int n" ?wait zero_snapshot 0]
    0 1 state second show ?thesis by (auto simp: Let_def)
qed

section \<open>The goroutine beside the requests\<close>

text \<open>
  Where the goroutine stands: reading documents, about to take the lock, about to close \<open>ready\<close>
  after a refresh that succeeded or failed, waiting for the next attempt, or gone.
\<close>

datatype refresh_phase =
    Fetching nat
  | Storing nat snapshot
  | Closing nat bool
  | Pausing nat
  | Returned

text \<open>What ended the select of a call of \<open>Current\<close>.\<close>

datatype wake = ReadyClosed | ContextEnded | TimerFired

text \<open>
  The failed attempts are counted and the answers given are kept in order, for the statements below.
  A catalogue that was fetched is live (\<open>Fetch_live\<close>); any number of requests may have been woken.
\<close>

record explorer =
  ex_remote :: remote
  ex_phase :: refresh_phase
  ex_failures :: nat
  ex_woken :: "wake list"
  ex_answers :: "(wake \<times> snapshot) list"

inductive explorer_step :: "explorer \<Rightarrow> explorer \<Rightarrow> bool" where
  fetch_succeeds: "ex_phase t = Fetching n \<Longrightarrow> sn_live snap \<Longrightarrow>
     explorer_step t (t\<lparr>ex_phase := Storing n snap\<rparr>)"
| fetch_fails: "ex_phase t = Fetching n \<Longrightarrow>
     explorer_step t (t\<lparr>ex_phase := Closing n False, ex_failures := ex_failures t + 1\<rparr>)"
| stores: "ex_phase t = Storing n snap \<Longrightarrow>
     explorer_step t (t\<lparr>ex_phase := Closing n True, ex_remote := store_current snap (ex_remote t)\<rparr>)"
| closes: "ex_phase t = Closing n ok \<Longrightarrow>
     explorer_step t (t\<lparr>ex_phase := (if ok then Returned else Pausing n), ex_remote := close_ready (ex_remote t)\<rparr>)"
| retries: "ex_phase t = Pausing n \<Longrightarrow> explorer_step t (t\<lparr>ex_phase := Fetching (n + 1)\<rparr>)"
| stops: "ex_phase t = Pausing n \<Longrightarrow> explorer_step t (t\<lparr>ex_phase := Returned\<rparr>)"
| wakes: "w \<noteq> ReadyClosed \<or> re_ready (ex_remote t) \<Longrightarrow>
     explorer_step t (t\<lparr>ex_woken := ex_woken t @ [w]\<rparr>)"
| reads: "ex_woken t = before @ w # after \<Longrightarrow>
     explorer_step t (t\<lparr>ex_woken := before @ after,
       ex_answers := ex_answers t @ [(w, remote_Current (ex_remote t))]\<rparr>)"

definition explorer_start :: "snapshot \<Rightarrow> explorer" where
  "explorer_start fallback =
     \<lparr>ex_remote = NewRemote fallback, ex_phase = Fetching 0, ex_failures = 0, ex_woken = [], ex_answers = []\<rparr>"

inductive explorer_reached :: "snapshot \<Rightarrow> explorer \<Rightarrow> bool" for fallback where
  starts: "explorer_reached fallback (explorer_start fallback)"
| goes_on: "explorer_reached fallback t \<Longrightarrow> explorer_step t u \<Longrightarrow> explorer_reached fallback u"

text \<open>An attempt of the goroutine, undisturbed, publishes as \<open>Refresh\<close> does.\<close>

abbreviation explorer_run :: "explorer \<Rightarrow> explorer \<Rightarrow> bool" where
  "explorer_run \<equiv> explorer_step\<^sup>*\<^sup>*"

abbreviation run_publishes :: "explorer \<Rightarrow> remote \<Rightarrow> bool" where
  "run_publishes t r \<equiv> \<exists>u. explorer_run t u \<and> ex_phase u = Returned \<and> ex_remote u = r \<and> ex_answers u = ex_answers t"

lemma run_publishes_after: "explorer_run t u \<Longrightarrow> ex_answers u = ex_answers t \<Longrightarrow> run_publishes u r \<Longrightarrow> run_publishes t r"
  by (metis rtranclp_trans)

lemma run_of_two: "explorer_step t u \<Longrightarrow> explorer_step u v \<Longrightarrow> explorer_run t v"
  by (meson converse_rtranclp_into_rtranclp rtranclp.rtrancl_refl)

lemma failed_attempt:
  assumes "ex_phase t = Fetching n"
  shows "explorer_run t (t\<lparr>ex_failures := ex_failures t + 1, ex_phase := Pausing n, ex_remote := publish (Inl e) (ex_remote t)\<rparr>)"
  using run_of_two [OF fetch_fails [OF assms] closes [of _ n False]] by (simp add: publish_def)

lemma attempt_that_fetches:
  assumes "ex_phase t = Fetching n" "sn_live snap"
  shows "explorer_run t (t\<lparr>ex_phase := Returned, ex_remote := publish (Inr snap) (ex_remote t)\<rparr>)"
  using rtranclp.rtrancl_into_rtrancl [OF run_of_two [OF fetch_succeeds [OF assms] stores [of _ n snap]] closes [of _ n True]]
  by (simp add: publish_def)

text \<open>So the loop, when it returns, is a run of these steps, to the catalogue it returns.\<close>

lemma loop_is_a_run:
  assumes "refresh_loop (refreshes fetch) wait n r s = Some res"
    and live: "\<And>n s snap. fst (fetch n s) = Inr snap \<Longrightarrow> sn_live snap"
    and "ex_phase t = Fetching n" "ex_remote t = r"
  shows "run_publishes t (fst res)"
proof -
  have "\<forall>t. refresh = refreshes fetch \<longrightarrow> ex_phase t = Fetching n \<longrightarrow> ex_remote t = r \<longrightarrow> run_publishes t (fst res)"
    if "refresh_loop refresh wait n r s = Some res" for refresh wait n r s res
  proof (rule refresh_loop.raw_induct [OF _ that], intro allI impI)
    fix loop refresh wait n r s res and t :: explorer
    assume IH: "\<And>refresh wait n r s res. loop refresh wait n r s = Some res \<Longrightarrow> \<forall>t. refresh = refreshes fetch \<longrightarrow>
          ex_phase t = Fetching n \<longrightarrow> ex_remote t = r \<longrightarrow> run_publishes t (fst res)"
      and step: "(let ((e, r'), s1) = refresh n r s in
        if e = None then Some (r', s1)
        else (let (ended, s2) = wait (retry_delay n) s1 in
              if ended then Some (r', s2) else loop refresh wait (n + 1) r' s2)) = Some res"
      and t: "refresh = refreshes fetch" "ex_phase t = Fetching n" "ex_remote t = r"
    show "run_publishes t (fst res)"
    proof (cases "fst (fetch n s)")
      case (Inr snap)
      then have "fst res = publish (Inr snap) r" using step by (auto simp: t(1) Let_def split_beta)
      then show ?thesis using attempt_that_fetches [OF t(2) live [OF Inr]] t(3)
        by (intro exI [of _ "t\<lparr>ex_phase := Returned, ex_remote := publish (Inr snap) r\<rparr>"]) simp
    next
      case (Inl e)
      define u where "u = t\<lparr>ex_failures := ex_failures t + 1, ex_phase := Pausing n, ex_remote := publish (Inl e) r\<rparr>"
      have run: "explorer_run t u" using failed_attempt [OF t(2), of e] t(3) by (simp add: u_def)
      show ?thesis
      proof (cases "fst (wait (retry_delay n) (snd (fetch n s)))")
        case True
        then have "fst res = publish (Inl e) r" using step Inl by (auto simp: t(1) Let_def split_beta)
        then show ?thesis
          using rtranclp.rtrancl_into_rtrancl [OF run stops [of u n]]
          by (intro exI [of _ "u\<lparr>ex_phase := Returned\<rparr>"]) (simp add: u_def)
      next
        case False
        define v where "v = u\<lparr>ex_phase := Fetching (n + 1)\<rparr>"
        have "loop refresh wait (n + 1) (publish (Inl e) r) (snd (wait (retry_delay n) (snd (fetch n s)))) = Some res"
          using step Inl False by (simp add: t(1) Let_def split_beta)
        from IH [OF this, THEN spec, of v] have "run_publishes v (fst res)" by (simp add: t(1) u_def v_def)
        moreover have "explorer_run t v"
          using rtranclp.rtrancl_into_rtrancl [OF run retries [of u n]] by (simp add: u_def v_def)
        ultimately show ?thesis by (rule run_publishes_after [rotated 2]) (simp add: u_def v_def)
      qed
    qed
  qed
  then show ?thesis using assms by blast
qed

text \<open>What is published, by where the goroutine stands.\<close>

definition phase_ok :: "snapshot \<Rightarrow> explorer \<Rightarrow> bool" where
  "phase_ok fb t \<longleftrightarrow>
     (case ex_phase t of
        Fetching n \<Rightarrow> re_current (ex_remote t) = fb \<and> ex_failures t = n
      | Storing n snap \<Rightarrow> re_current (ex_remote t) = fb \<and> ex_failures t = n \<and> sn_live snap
      | Closing n ok \<Rightarrow>
          if ok then sn_live (re_current (ex_remote t)) else re_current (ex_remote t) = fb \<and> ex_failures t = n + 1
      | Pausing n \<Rightarrow> re_current (ex_remote t) = fb \<and> ex_failures t = n + 1
      | Returned \<Rightarrow> sn_live (re_current (ex_remote t)) \<or> re_current (ex_remote t) = fb \<and> ex_failures t > 0)"

definition ready_ok :: "explorer \<Rightarrow> bool" where
  "ready_ok t \<longleftrightarrow>
     (re_ready (ex_remote t) \<longrightarrow> ex_failures t > 0 \<or> sn_live (re_current (ex_remote t))) \<and>
     (ReadyClosed \<in> set (ex_woken t) \<longrightarrow> re_ready (ex_remote t))"

definition answers_ok :: "snapshot \<Rightarrow> explorer \<Rightarrow> bool" where
  "answers_ok fb t \<longleftrightarrow>
     (\<exists>i j. map snd (ex_answers t) = replicate i fb @ replicate j (re_current (ex_remote t))) \<and>
     (\<forall>snap. (ReadyClosed, snap) \<in> set (ex_answers t) \<longrightarrow> ex_failures t > 0 \<or> sn_live snap)"

lemma phase_ok_step: "explorer_step t u \<Longrightarrow> phase_ok fb t \<Longrightarrow> phase_ok fb u"
  by (induction rule: explorer_step.induct) (auto simp: phase_ok_def split: refresh_phase.splits if_splits)

lemma ready_ok_step: "explorer_step t u \<Longrightarrow> phase_ok fb t \<Longrightarrow> ready_ok t \<Longrightarrow> ready_ok u"
  by (induction rule: explorer_step.induct) (auto simp: phase_ok_def ready_ok_def split: if_splits)

lemma answers_ok_step:
  "explorer_step t u \<Longrightarrow> phase_ok fb t \<Longrightarrow> ready_ok t \<Longrightarrow> answers_ok fb t \<Longrightarrow> answers_ok fb u"
proof (induction rule: explorer_step.induct)
  case (stores t n snap)
  then obtain i j where "map snd (ex_answers t) = replicate i fb @ replicate j fb"
    by (auto simp: answers_ok_def phase_ok_def)
  then have "map snd (ex_answers t) = replicate (i + j) fb @ replicate 0 snap"
    by (simp add: replicate_add)
  then have "\<exists>i j. map snd (ex_answers t) = replicate i fb @ replicate j snap" by blast
  with stores show ?case by (simp add: answers_ok_def)
next
  case (reads t before w after)
  then obtain i j where "map snd (ex_answers t) = replicate i fb @ replicate j (re_current (ex_remote t))"
    by (auto simp: answers_ok_def)
  then have "map snd (ex_answers t @ [(w, remote_Current (ex_remote t))]) =
      replicate i fb @ replicate (Suc j) (re_current (ex_remote t))"
    by (simp add: remote_Current_def replicate_append_same [symmetric])
  with reads show ?case
    unfolding answers_ok_def ready_ok_def by (auto simp: remote_Current_def simp del: replicate_Suc)
qed (auto simp: answers_ok_def)

lemma explorer_invariant:
  "explorer_reached fallback t \<Longrightarrow>
   phase_ok (fallback\<lparr>sn_live := False\<rparr>) t \<and> ready_ok t \<and> answers_ok (fallback\<lparr>sn_live := False\<rparr>) t"
proof (induction rule: explorer_reached.induct)
  case starts
  show ?case by (simp add: explorer_start_def phase_ok_def ready_ok_def answers_ok_def)
next
  case (goes_on t u)
  then show ?case using phase_ok_step ready_ok_step answers_ok_step by blast
qed

text \<open>
  C33: However the requests of the explorer fall among the steps of the background refresh, the
  catalogue never goes back: in the order they are given, the answers are the embedded snapshot,
  marked as not live, some number of times, and then one fetched catalogue, the one still
  published. A request whose wait ended because the first refresh was over is handed a fetched
  catalogue unless an attempt has failed.
\<close>

theorem catalogue_never_goes_back:
  assumes "explorer_reached fallback t"
  shows "(\<exists>i j snap. map snd (ex_answers t) = replicate i (fallback\<lparr>sn_live := False\<rparr>) @ replicate j snap \<and>
            (0 < j \<longrightarrow> sn_live snap \<and> remote_Current (ex_remote t) = snap)) \<and>
         (\<forall>snap. (ReadyClosed, snap) \<in> set (ex_answers t) \<and> ex_failures t = 0 \<longrightarrow> sn_live snap)"
proof
  let ?fb = "fallback\<lparr>sn_live := False\<rparr>" and ?now = "re_current (ex_remote t)"
  from explorer_invariant [OF assms] obtain i j where ij:
    "map snd (ex_answers t) = replicate i ?fb @ replicate j ?now" and phase: "phase_ok ?fb t"
    by (auto simp: answers_ok_def)
  have "sn_live ?now \<or> ?now = ?fb"
    using phase by (auto simp: phase_ok_def split: refresh_phase.splits if_splits)
  then show "\<exists>i j snap. map snd (ex_answers t) = replicate i ?fb @ replicate j snap \<and>
            (0 < j \<longrightarrow> sn_live snap \<and> remote_Current (ex_remote t) = snap)"
  proof
    assume "sn_live ?now"
    with ij show ?thesis by (auto simp: remote_Current_def)
  next
    assume "?now = ?fb"
    with ij have "map snd (ex_answers t) = replicate (i + j) ?fb @ replicate 0 ?fb" by (simp add: replicate_add)
    then show ?thesis by blast
  qed
qed (use explorer_invariant [OF assms] in \<open>auto simp: answers_ok_def\<close>)

text \<open>One request gives up waiting, the first refresh lands, and the next request comes in.\<close>

theorem catalogue_never_goes_back_witness:
  "\<exists>t i j snap. explorer_reached zero_snapshot t \<and> ex_failures t = 0 \<and> length (ex_answers t) = 2 \<and>
     map snd (ex_answers t) = replicate i zero_snapshot @ replicate j snap \<and> (0 < j \<longrightarrow> sn_live snap)"
proof -
  define live where "live = zero_snapshot\<lparr>sn_live := True\<rparr>"
  define r where "r = close_ready (store_current live (NewRemote zero_snapshot))"
  have fb: "zero_snapshot\<lparr>sn_live := False\<rparr> = zero_snapshot" by (simp add: zero_snapshot_def)
  note go = explorer_reached.goes_on [of zero_snapshot]
  let ?t = "explorer_start zero_snapshot"
  have 1: "explorer_reached zero_snapshot (?t\<lparr>ex_woken := [TimerFired]\<rparr>)"
    by (rule go [OF explorer_reached.starts]) (use wakes [of TimerFired ?t] in \<open>simp add: explorer_start_def\<close>)
  have 2: "explorer_reached zero_snapshot (?t\<lparr>ex_answers := [(TimerFired, zero_snapshot)]\<rparr>)"
    by (rule go [OF 1]) (use reads [of "?t\<lparr>ex_woken := [TimerFired]\<rparr>" "[]" TimerFired "[]"] in
      \<open>simp add: explorer_start_def remote_Current_def fb\<close>)
  let ?u = "?t\<lparr>ex_answers := [(TimerFired, zero_snapshot)]\<rparr>"
  have 3: "explorer_reached zero_snapshot (?u\<lparr>ex_phase := Storing 0 live\<rparr>)"
    by (rule go [OF 2 fetch_succeeds]) (simp_all add: explorer_start_def live_def)
  have 4: "explorer_reached zero_snapshot
      (?u\<lparr>ex_phase := Closing 0 True, ex_remote := store_current live (NewRemote zero_snapshot)\<rparr>)"
    by (rule go [OF 3]) (use stores [of "?u\<lparr>ex_phase := Storing 0 live\<rparr>" 0 live] in \<open>simp add: explorer_start_def\<close>)
  have 5: "explorer_reached zero_snapshot (?u\<lparr>ex_phase := Returned, ex_remote := r\<rparr>)"
    by (rule go [OF 4]) (use closes [of "?u\<lparr>ex_phase := Closing 0 True,
      ex_remote := store_current live (NewRemote zero_snapshot)\<rparr>" 0 True] in \<open>simp add: explorer_start_def r_def\<close>)
  let ?v = "?u\<lparr>ex_phase := Returned, ex_remote := r\<rparr>"
  have 6: "explorer_reached zero_snapshot (?v\<lparr>ex_woken := [ReadyClosed]\<rparr>)"
    by (rule go [OF 5]) (use wakes [of ReadyClosed ?v] in \<open>simp add: explorer_start_def r_def\<close>)
  have 7: "explorer_reached zero_snapshot
      (?v\<lparr>ex_answers := [(TimerFired, zero_snapshot), (ReadyClosed, live)]\<rparr>)"
    by (rule go [OF 6]) (use reads [of "?v\<lparr>ex_woken := [ReadyClosed]\<rparr>" "[]" ReadyClosed "[]"] in
      \<open>simp add: explorer_start_def r_def remote_Current_def\<close>)
  from catalogue_never_goes_back [OF 7] obtain i j snap where
    "map snd (ex_answers (?v\<lparr>ex_answers := [(TimerFired, zero_snapshot), (ReadyClosed, live)]\<rparr>)) =
       replicate i zero_snapshot @ replicate j snap" "0 < j \<longrightarrow> sn_live snap"
    unfolding fb by blast
  with 7 show ?thesis
    by (intro exI [of _ "?v\<lparr>ex_answers := [(TimerFired, zero_snapshot), (ReadyClosed, live)]\<rparr>"]
        exI [of _ i] exI [of _ j] exI [of _ snap]) (simp add: explorer_start_def)
qed

end
