(* ===== verification/Snapshots.thy ===== *)
theory Snapshots
  imports Startup Catalog_Run
begin

text \<open>
  \<open>tools/snapshotgen/main.go\<close>, \<open>internal/catalog/snapshot.go\<close> and \<open>routeCatalogue\<close> of
  \<open>cmd/keymaker/main.go\<close>: the catalogue a maintainer captures, the file it is kept in, and the
  fallback a process starts with. The HTTP exchange, the file system, gzip and JSON are
  parameters; a round trip shows that what was captured is what the process falls back on.
\<close>

section \<open>The embedded copy\<close>

text \<open>The compressed reader and the JSON decoder behind it, and the encoder that writes for them.\<close>

record packing =
  pk_gunzip :: "string \<Rightarrow> err + string"
  pk_decode :: "string \<Rightarrow> err + snapshot"
  pk_pack :: "snapshot \<Rightarrow> err + string"

definition embedded_name :: "string \<Rightarrow> string" where
  "embedded_name endpoint = ''snapshots/'' @ endpoint @ ''.json.gz''"

definition Embedded :: "packing \<Rightarrow> (string \<Rightarrow> string option) \<Rightarrow> string \<Rightarrow> err + snapshot" where
  "Embedded pk captured endpoint =
     (case captured (embedded_name endpoint) of
        None \<Rightarrow> Inl (Failure ''no embedded catalogue'')
      | Some compressed \<Rightarrow>
          (case pk_gunzip pk compressed of
             Inl e \<Rightarrow> Inl (Wrap [e])
           | Inr raw \<Rightarrow>
               (case pk_decode pk raw of
                  Inl e \<Rightarrow> Inl (Wrap [e])
                | Inr snap \<Rightarrow> Inr (snap\<lparr>sn_live := False\<rparr>))))"

definition routeCatalogue :: "packing \<Rightarrow> (string \<Rightarrow> string option) \<Rightarrow> string \<Rightarrow> remote" where
  "routeCatalogue pk captured endpoint =
     NewRemote (case Embedded pk captured endpoint of Inl _ \<Rightarrow> zero_snapshot | Inr snap \<Rightarrow> snap)"

section \<open>Capturing\<close>

text \<open>An exchange answers a status and a body, which may fail to be read.\<close>

type_synonym 'w exchange = "string \<Rightarrow> ('w, err + (int \<times> (err + string))) op"

definition source_get :: "'w exchange \<Rightarrow> string \<Rightarrow> string \<Rightarrow> ('w, err + string) op" where
  "source_get http base path w =
     (let (r, w') = http (base @ path) w
      in (case r of
            Inl e \<Rightarrow> Inl e
          | Inr (status, body) \<Rightarrow> if status \<noteq> 200 then Inl (Failure ''unexpected status'') else body, w'))"

definition generator_source :: "'w exchange \<Rightarrow> string \<Rightarrow> 'w source" where
  "generator_source http base =
     \<lparr>src_index = source_get http base ''/'', src_schema = source_get http base\<rparr>"

definition start_of_day :: "time \<Rightarrow> time" where
  "start_of_day t = t - t mod (24 * hour_ns)"

text \<open>Creating the file empties it; the encoder then fills it, or fails.\<close>

definition write_snapshot ::
  "packing \<Rightarrow> (string \<Rightarrow> string \<Rightarrow> ('w, err option) op) \<Rightarrow> string \<Rightarrow> snapshot \<Rightarrow> ('w, err option) op" where
  "write_snapshot pk store_file path snap w =
     (let (e, w1) = store_file path [] w in
      case e of
        Some e \<Rightarrow> (Some e, w1)
      | None \<Rightarrow> (case pk_pack pk snap of Inl e \<Rightarrow> (Some e, w1) | Inr bytes \<Rightarrow> store_file path bytes w1))"

record 'w generator =
  ge_scheduler :: "'w scheduler"
  ge_decoders :: decoders
  ge_http :: "'w exchange"
  ge_endpoints :: "string \<Rightarrow> string option"
  ge_packing :: packing
  ge_store_file :: "string \<Rightarrow> string \<Rightarrow> ('w, err option) op"
  ge_clock :: "nat \<Rightarrow> time"

text \<open>A fetch, and another when the first one failed.\<close>

definition fetch_twice :: "'w generator \<Rightarrow> string \<Rightarrow> ('w, err + snapshot) op" where
  "fetch_twice g base w =
     (let fetch = Fetch (ge_scheduler g) (ge_decoders g) (generator_source (ge_http g) base);
          (first, w1) = fetch (ge_clock g 0) w
      in case first of Inl _ \<Rightarrow> fetch (ge_clock g 1) w1 | Inr snap \<Rightarrow> (Inr snap, w1))"

text \<open>The outcome \<open>Inl\<close> is the end of the process; otherwise the snapshot that was written.\<close>

definition capture :: "'w generator \<Rightarrow> string \<Rightarrow> string \<Rightarrow> ('w, err + snapshot) op" where
  "capture g endpoint output w =
     (case ge_endpoints g endpoint of
        None \<Rightarrow> (Inl (Failure ''unknown endpoint''), w)
      | Some base \<Rightarrow>
          (let (fetched, w1) = fetch_twice g base w
           in case fetched of
                Inl e \<Rightarrow> (Inl (Wrap [e]), w1)
              | Inr snap \<Rightarrow>
                  (let kept = snap\<lparr>sn_live := False, sn_taken := start_of_day (sn_taken snap)\<rparr>;
                       (e, w2) = write_snapshot (ge_packing g) (ge_store_file g) output kept w1
                   in (case e of Some e \<Rightarrow> Inl (Wrap [e]) | None \<Rightarrow> Inr kept, w2))))"

definition SupportedEndpoints :: "string list" where "SupportedEndpoints = supportedEndpoints"

definition output_of :: "string \<Rightarrow> string \<Rightarrow> string" where
  "output_of dir endpoint = dir @ ''/'' @ endpoint @ ''.json.gz''"

text \<open>Every region, or the one the flag names, until the first that fails.\<close>

fun capture_each :: "'w generator \<Rightarrow> string \<Rightarrow> string list \<Rightarrow> ('w, err option) op" where
  "capture_each g dir [] w = (None, w)"
| "capture_each g dir (endpoint # endpoints) w =
     (let (r, w1) = capture g endpoint (output_of dir endpoint) w in
      case r of Inl e \<Rightarrow> (Some e, w1) | Inr _ \<Rightarrow> capture_each g dir endpoints w1)"

definition generate :: "'w generator \<Rightarrow> string \<Rightarrow> string \<Rightarrow> ('w, err option) op" where
  "generate g dir flag w = capture_each g dir (if flag = [] then SupportedEndpoints else [flag]) w"

section \<open>From one to the other\<close>

text \<open>
  What is expected of the file system over a view of it as a map and of the exchange, which does not
  touch files; and of gzip and JSON, that a captured catalogue, whose texts came out of a JSON
  decoder, is read back as it was written.
\<close>

definition keeps_files :: "'w generator \<Rightarrow> ('w \<Rightarrow> string \<Rightarrow> string option) \<Rightarrow> bool" where
  "keeps_files g files \<longleftrightarrow>
     (\<forall>p b w. fst (ge_store_file g p b w) = None \<longrightarrow>
        files (snd (ge_store_file g p b w)) = (files w)(p \<mapsto> b)) \<and>
     (\<forall>url w. files (snd (ge_http g url w)) = files w)"

definition reads_back :: "'w generator \<Rightarrow> bool" where
  "reads_back g \<longleftrightarrow>
     (\<forall>endpoint output u v snap b.
        capture g endpoint output u = (Inr snap, v) \<and> pk_pack (ge_packing g) snap = Inr b \<longrightarrow>
        (\<exists>raw. pk_gunzip (ge_packing g) b = Inr raw \<and> pk_decode (ge_packing g) raw = Inr snap))"

definition snapshots_dir :: string where "snapshots_dir = ''internal/catalog/snapshots''"

text \<open>The file tree of the package, as the build embeds it.\<close>

definition embedded_files :: "(string \<Rightarrow> string option) \<Rightarrow> string \<Rightarrow> string option" where
  "embedded_files files p = files (''internal/catalog/'' @ p)"

lemma output_embedded: "embedded_files files (embedded_name endpoint) = files (output_of snapshots_dir endpoint)"
  by (simp add: embedded_files_def embedded_name_def output_of_def snapshots_dir_def)

lemma output_of_inject [simp]: "output_of dir a = output_of dir b \<longleftrightarrow> a = b"
  by (simp add: output_of_def)

lemma Fetch_files:
  assumes "keeps_files g files"
  shows "files (snd (Fetch sched dec (generator_source (ge_http g) base) now w)) = files w"
proof -
  have get: "files (snd (source_get (ge_http g) base p w)) = files w" for p w
    using assms by (simp add: source_get_def Let_def split_beta keeps_files_def)
  have "files (snd (fetch_branch dec (generator_source (ge_http g) base) b w)) = files w" for b w
    by (simp add: fetch_branch_def generator_source_def Let_def split_beta get)
  then have "files (snd (run_pool (\<lambda>i. fetch_branch dec (generator_source (ge_http g) base) (bs ! i)) is slots w)) = files w"
    for bs "is" slots w
    using run_pool_rel [of "\<lambda>s t. files t = files s" "\<lambda>i. fetch_branch dec (generator_source (ge_http g) base) (bs ! i)"]
    by simp
  then show ?thesis
    by (simp add: Fetch_def Let_def split_beta get generator_source_def split: sum.split)
qed

lemma write_snapshot_files:
  assumes "keeps_files g files" "write_snapshot pk (ge_store_file g) p snap w = (None, w')"
  shows "\<exists>b. pk_pack pk snap = Inr b \<and> files w' = (files w)(p \<mapsto> b)"
proof -
  obtain w1 where first: "ge_store_file g p [] w = (None, w1)"
    using assms(2) by (auto simp: write_snapshot_def Let_def split_beta prod_eq_iff split: option.splits)
  then obtain b where b: "pk_pack pk snap = Inr b" "ge_store_file g p b w1 = (None, w')"
    using assms(2) by (auto simp: write_snapshot_def split: sum.splits)
  have "files w1 = (files w)(p \<mapsto> [])" "files w' = (files w1)(p \<mapsto> b)"
    using assms(1) first b(2) by (auto simp: keeps_files_def) (metis fst_conv snd_conv)+
  with b(1) show ?thesis by simp
qed

lemma capture_files:
  assumes files: "keeps_files g files" and got: "capture g endpoint output w = (Inr kept, w')"
  shows "\<exists>b. pk_pack (ge_packing g) kept = Inr b \<and> files w' = (files w)(output \<mapsto> b) \<and> \<not> sn_live kept"
proof -
  obtain base where base: "ge_endpoints g endpoint = Some base"
    using got by (auto simp: capture_def split: option.splits)
  obtain fetched w1 where fetched: "fetch_twice g base w = (fetched, w1)" by (metis surj_pair)
  have "files w1 = files w"
    using fetched Fetch_files [OF files]
    by (auto simp: fetch_twice_def Let_def split_beta split: sum.splits) (metis snd_conv)+
  moreover obtain snap where "fetched = Inr snap"
    "kept = snap\<lparr>sn_live := False, sn_taken := start_of_day (sn_taken snap)\<rparr>"
    "write_snapshot (ge_packing g) (ge_store_file g) output kept w1 = (None, w')"
    using got by (auto simp: capture_def base fetched Let_def split_beta prod_eq_iff split: sum.splits option.splits)
  ultimately show ?thesis using write_snapshot_files [OF files] by fastforce
qed

lemma capture_each_files:
  assumes files: "keeps_files g files" and all: "capture_each g dir endpoints w = (None, w')"
    and member: "endpoint \<in> set endpoints"
  shows "\<exists>kept b u v. capture g endpoint (output_of dir endpoint) u = (Inr kept, v) \<and>
           pk_pack (ge_packing g) kept = Inr b \<and> \<not> sn_live kept \<and> files w' (output_of dir endpoint) = Some b"
  using all member
proof (induction endpoints arbitrary: w)
  case (Cons e es)
  then obtain kept w1 where first: "capture g e (output_of dir e) w = (Inr kept, w1)"
    and later: "capture_each g dir es w1 = (None, w')"
    by (auto simp: Let_def split_beta prod_eq_iff split: sum.splits)
  show ?case
  proof (cases "endpoint \<in> set es")
    case True
    then show ?thesis by (rule Cons.IH [OF later])
  next
    case False
    have others: "capture_each g dir ns u = (None, v) \<Longrightarrow> endpoint \<notin> set ns \<Longrightarrow>
        files v (output_of dir endpoint) = files u (output_of dir endpoint)" for ns u v
    proof (induction ns arbitrary: u)
      case (Cons n ns)
      then obtain k u1 where "capture g n (output_of dir n) u = (Inr k, u1)" "capture_each g dir ns u1 = (None, v)"
        by (auto simp: Let_def split_beta prod_eq_iff split: sum.splits)
      then show ?case
        using Cons capture_files [OF files, of n "output_of dir n" u k u1] by fastforce
    qed simp
    have "endpoint = e" using False Cons.prems(2) by simp
    with first others [OF later False] capture_files [OF files first] show ?thesis by fastforce
  qed
qed simp

text \<open>
  C40: What the generator captures is what a process falls back on: once it has ended without a
  failure, the file embedded for each region it was asked for reads back, through gzip and JSON,
  as the catalogue it fetched, dated to the day and marked as not live, and this is the catalogue
  of a process started for that region until a refresh succeeds.
\<close>

theorem captured_is_embedded:
  assumes "keeps_files g files" "reads_back g"
    and "generate g snapshots_dir flag w = (None, w')"
    and "endpoint \<in> set (if flag = [] then SupportedEndpoints else [flag])"
  shows "\<exists>snap u v. capture g endpoint (output_of snapshots_dir endpoint) u = (Inr snap, v) \<and>
           Embedded (ge_packing g) (embedded_files (files w')) endpoint = Inr snap \<and>
           remote_Current (routeCatalogue (ge_packing g) (embedded_files (files w')) endpoint) = snap"
proof -
  obtain kept b u v where kept: "capture g endpoint (output_of snapshots_dir endpoint) u = (Inr kept, v)"
    "pk_pack (ge_packing g) kept = Inr b" "\<not> sn_live kept" "files w' (output_of snapshots_dir endpoint) = Some b"
    using capture_each_files [OF assms(1) assms(3) [unfolded generate_def] assms(4)] by blast
  then obtain raw where "pk_gunzip (ge_packing g) b = Inr raw" "pk_decode (ge_packing g) raw = Inr kept"
    using assms(2) unfolding reads_back_def by blast
  with kept have "Embedded (ge_packing g) (embedded_files (files w')) endpoint = Inr kept"
    by (simp add: Embedded_def output_embedded)
  moreover from this kept(3) have "remote_Current (routeCatalogue (ge_packing g) (embedded_files (files w')) endpoint) = kept"
    by (simp add: routeCatalogue_def NewRemote_def remote_Current_def Let_def)
  ultimately show ?thesis using kept(1) by blast
qed

text \<open>
  A generator over a file tree, whose API documents the one branch \<open>/me\<close> and fails the first time
  it is asked; its files hold the day and nothing else.
\<close>

type_synonym small_files = "(string \<times> string) list \<times> nat"

definition small_packing :: packing where
  "small_packing =
     \<lparr>pk_gunzip = Inr, pk_decode = (\<lambda>raw. if raw = [] then Inl (Failure ''eof'') else
        Inr \<lparr>sn_routes = [\<lparr>rt_path = ''/me'', rt_operations = [\<lparr>op_method = ''GET'', op_description = [], op_deprecated = False\<rparr>]\<rparr>],
             sn_branches = [''/me''], sn_taken = 0, sn_live = False\<rparr>),
      pk_pack = (\<lambda>snap. if snap = \<lparr>sn_routes = [\<lparr>rt_path = ''/me'', rt_operations = [\<lparr>op_method = ''GET'', op_description = [], op_deprecated = False\<rparr>]\<rparr>],
             sn_branches = [''/me''], sn_taken = 0, sn_live = False\<rparr> then Inr ''me'' else Inl (Failure ''json''))\<rparr>"

definition small_generator :: "small_files generator" where
  "small_generator =
     \<lparr>ge_scheduler = (\<lambda>_ n. [0 ..< n]),
      ge_decoders = \<lparr>de_index = (\<lambda>_. Some [''/me'']),
        de_schema = (\<lambda>_. Some [(''/me'', [\<lparr>so_method = ''GET'', so_description = [], so_status = []\<rparr>])])\<rparr>,
      ge_http = (\<lambda>_ (fs, n). (if n = 0 then Inr (503, Inr []) else Inr (200, Inr ''{}''), (fs, n + 1))),
      ge_endpoints = (\<lambda>_. Some ''https://eu.api.ovh.com/1.0''),
      ge_packing = small_packing,
      ge_store_file = (\<lambda>p b (fs, n). (None, ((p, b) # fs, n))),
      ge_clock = (\<lambda>_. 3600)\<rparr>"

theorem captured_is_embedded_witness:
  "\<exists>snap. Embedded small_packing
     (embedded_files (map_of (fst (snd (generate small_generator snapshots_dir ''ovh-ca'' ([], 0)))))) ''ovh-ca'' =
     Inr snap \<and> sn_branches snap = [''/me'']"
proof -
  let ?g = small_generator
  have files: "keeps_files ?g (\<lambda>w. map_of (fst w))"
    by (simp add: keeps_files_def small_generator_def split_beta)
  have reads: "reads_back ?g"
    by (auto simp: reads_back_def small_generator_def small_packing_def split: if_splits)
  have run: "generate ?g snapshots_dir ''ovh-ca'' ([], 0) =
      (None, snd (generate ?g snapshots_dir ''ovh-ca'' ([], 0)))"
    by code_simp
  have member: "''ovh-ca'' \<in> set (if ''ovh-ca'' = [] then SupportedEndpoints else [''ovh-ca''])" by simp
  obtain snap where snap: "Embedded small_packing
     (embedded_files (map_of (fst (snd (generate ?g snapshots_dir ''ovh-ca'' ([], 0)))))) ''ovh-ca'' = Inr snap"
    using captured_is_embedded [OF files reads run member] by (auto simp: small_generator_def)
  then have "sn_branches snap = [''/me'']"
    by (auto simp: Embedded_def small_packing_def split: option.splits if_splits)
  with snap show ?thesis by blast
qed

end
