(* ===== verification/Demo.thy ===== *)
theory Demo
  imports Http_Server "HOL-Library.Sublist"
begin

text \<open>
  \<open>tools/demo/main.go\<close>: an account held in memory behind the same server. Its store is a second
  provider, and this theory interprets the contract of the handlers on it, so that everything proved
  of them holds of the demo as well, with the store itself as the account that changes. The lock
  makes every operation one step. Flags, tokens and the listening loop are left out; the wait of
  the catalogue does not arise, since its snapshot is fixed.
\<close>

section \<open>The store\<close>

record store =
  so_current :: credential
  so_credentials :: "credential list"
  so_applications :: "application list"

definition store_List :: "status \<Rightarrow> (store, credential list option \<times> err option) op" where
  "store_List st s =
     ((Some (filter (\<lambda>c. st = [] \<or> cred_status c = st) (so_credentials s)), None), s)"

definition store_Get :: "int \<Rightarrow> (store, err + credential) op" where
  "store_Get i s =
     (case find (\<lambda>c. cred_id c = i) (so_credentials s) of
        Some c \<Rightarrow> (Inr c, s)
      | None \<Rightarrow> (Inl (Sentinel ErrNotFound), s))"

definition store_Current :: "(store, err + credential) op" where
  "store_Current s = (Inr (so_current s), s)"

definition store_RevokeAgainst :: "credential \<Rightarrow> int \<Rightarrow> (store, err option) op" where
  "store_RevokeAgainst current i s =
     (if cred_id current = i then (Some (Sentinel ErrSelfRevocation), s)
      else (let rest = filter (\<lambda>c. cred_id c \<noteq> i) (so_credentials s);
                s' = s\<lparr>so_credentials := rest\<rparr>
            in if length rest = length (so_credentials s) then (Some (Sentinel ErrNotFound), s')
               else (None, s')))"

definition store_Revoke :: "int \<Rightarrow> (store, err option) op" where
  "store_Revoke i s = store_RevokeAgainst (so_current s) i s"

definition store_Retire :: "(store, err + retirement) op" where
  "store_Retire s =
     (let i = cred_id (so_current s)
      in (Inr \<lparr>ret_id = i, ret_deleted = True\<rparr>,
          s\<lparr>so_credentials := filter (\<lambda>c. cred_id c \<noteq> i) (so_credentials s)\<rparr>))"

definition store_Revocable :: "credential \<Rightarrow> credential \<Rightarrow> bool" where
  "store_Revocable current target \<longleftrightarrow> permits current ''DELETE'' (CredentialPath (cred_id target))"

fun set_first :: "int \<Rightarrow> prefix list \<Rightarrow> credential list \<Rightarrow> credential list option" where
  "set_first i allowed [] = None"
| "set_first i allowed (c # cs) =
     (if cred_id c = i then Some (c\<lparr>cred_allowed_ips := allowed\<rparr> # cs)
      else map_option (\<lambda>cs'. c # cs') (set_first i allowed cs))"

definition store_SetAddresses :: "int \<Rightarrow> prefix list \<Rightarrow> (store, err option) op" where
  "store_SetAddresses i allowed s =
     (case set_first i allowed (so_credentials s) of
        None \<Rightarrow> (Some (Sentinel ErrNotFound), s)
      | Some cs \<Rightarrow>
          (None, s\<lparr>so_credentials := cs,
                   so_current := (if i = cred_id (so_current s)
                                  then (so_current s)\<lparr>cred_allowed_ips := allowed\<rparr> else so_current s)\<rparr>))"

definition store_AddressesEditable :: "credential \<Rightarrow> credential \<Rightarrow> bool" where
  "store_AddressesEditable current target \<longleftrightarrow> permits current ''PUT'' (CredentialPath (cred_id target))"

definition store_Applications :: "(store, application list option \<times> err option) op" where
  "store_Applications s = ((Some (so_applications s), None), s)"

definition store_DeleteApplicationAgainst :: "credential list \<Rightarrow> int \<Rightarrow> (store, err option) op" where
  "store_DeleteApplicationAgainst cs i s =
     (if list_ex (\<lambda>c. app_id (cred_application c) = i) cs then (Some (Sentinel ErrApplicationInUse), s)
      else (let rest = filter (\<lambda>a. app_id a \<noteq> i) (so_applications s);
                s' = s\<lparr>so_applications := rest\<rparr>
            in if length rest = length (so_applications s) then (Some (Sentinel ErrNotFound), s')
               else (None, s')))"

definition store_DeleteApplication :: "int \<Rightarrow> (store, err option) op" where
  "store_DeleteApplication i s =
     (let ((cs, e), s1) = store_List [] s in
      case e of
        Some e \<Rightarrow> (Some e, s1)
      | None \<Rightarrow> store_DeleteApplicationAgainst (slice cs) i s1)"

definition store_DeletableApplication :: "credential \<Rightarrow> int \<Rightarrow> bool" where
  "store_DeletableApplication current i \<longleftrightarrow> permits current ''DELETE'' (ApplicationPath i)"

definition store_provider :: "store provider" where
  "store_provider =
     \<lparr>pr_list = store_List, pr_get = store_Get, pr_revoke = store_Revoke,
      pr_revoke_against = store_RevokeAgainst, pr_applications = store_Applications,
      pr_delete_application = store_DeleteApplication,
      pr_delete_application_against = store_DeleteApplicationAgainst,
      pr_deletable_application = store_DeletableApplication, pr_current = store_Current,
      pr_retire = store_Retire, pr_revocable = store_Revocable,
      pr_set_addresses = store_SetAddresses, pr_addresses_editable = store_AddressesEditable\<rparr>"

section \<open>The invented account\<close>

definition day_ns :: duration where "day_ns = 24 * hour_ns"

definition demo_ip :: "string \<Rightarrow> prefix list" where
  "demo_ip s = (case parse_prefix s of Some p \<Rightarrow> [p] | None \<Rightarrow> [])"

definition invented :: "int \<Rightarrow> string \<Rightarrow> string \<Rightarrow> string \<Rightarrow> application" where
  "invented i key name description =
     zero_application\<lparr>app_id := i, app_key := key, app_name := name, app_description := description\<rparr>"

definition demo_app :: application where
  "demo_app = invented 7101 ''demo0000000000a1'' ''keymaker'' ''the key this demo runs with''"
definition dns_app :: application where
  "dns_app = invented 7110 ''demo0000000000b2'' ''dns-renewal'' ''certbot on the web servers''"
definition iam_app :: application where
  "iam_app = invented 7111 ''demo0000000000c3'' ''iam-bot'' ''onboarding script''"
definition ticket_app :: application where
  "ticket_app = invented 7112 ''demo0000000000d4'' ''support-ticket'' ''ticket 4242''"
definition draft_app :: application where
  "draft_app = invented 7113 ''demo0000000000e5'' ''draft'' ''first try''"
definition backup_app :: application where
  "backup_app = invented 7114 ''demo0000000000f6'' ''backup-agent'' []"
definition cron_app :: application where
  "cron_app = invented 7115 ''demo0000000000a7'' ''legacy-cron'' ''nightly export''"
definition console_app :: application where
  "console_app = (invented 7190 [] ''API console'' ''the web console of the API'')\<lparr>app_external := True\<rparr>"
definition leftover_app :: application where
  "leftover_app = invented 7116 ''demo0000000000b8'' ''old-backup'' ''left behind by a revoked key''"
definition deleted_app :: application where
  "deleted_app = zero_application\<lparr>app_id := 7117, app_deleted := True\<rparr>"

definition get_rule :: "string \<Rightarrow> access_rule" where
  "get_rule path = mk_rule ''GET'' path"

definition zone_rules :: "access_rule list" where
  "zone_rules = [get_rule ''/domain/zone/*'', mk_rule ''POST'' ''/domain/zone/*/record'']"

text \<open>A key with its status, application, rules and blocks, and the three dates.\<close>

definition demo_key ::
  "int \<Rightarrow> status \<Rightarrow> application \<Rightarrow> access_rule list \<Rightarrow> prefix list \<Rightarrow> time \<Rightarrow> time \<Rightarrow> time \<Rightarrow> credential" where
  "demo_key i st app rules allowed created expires used =
     zero_credential\<lparr>cred_id := i, cred_status := st, cred_application := app, cred_rules := rules,
       cred_allowed_ips := allowed, cred_created_at := created, cred_expires_at := expires,
       cred_last_used_at := used\<rparr>"

definition demo_current :: "time \<Rightarrow> credential" where
  "demo_current now =
     demo_key 118820001 StatusValidated demo_app (UsableRules @ [get_rule ''/cloud/project/*''])
       (demo_ip ''198.51.100.7/32'') (now - 25 * day_ns) (now + 5 * day_ns) now"

definition newStore :: "time \<Rightarrow> store" where
  "newStore now =
     \<lparr>so_current = demo_current now,
      so_credentials =
        [demo_current now,
         demo_key 118820304 StatusValidated dns_app zone_rules (demo_ip ''203.0.113.4/32'')
           (now - 300 * day_ns) (now + 90 * day_ns) (now - 2 * hour_ns),
         demo_key 118820517 StatusValidated dns_app zone_rules (demo_ip ''203.0.113.4/32'')
           (now - 310 * day_ns) (now + 90 * day_ns) (now - 200 * day_ns),
         demo_key 118821001 StatusValidated iam_app [mk_rule ''POST'' ''/me/identity/user'', get_rule ''/me/bill''] []
           (now - 40 * day_ns) (now + 200 * day_ns) (now - day_ns),
         (demo_key 118821050 StatusValidated ticket_app [get_rule ''/me''] (demo_ip ''192.0.2.10/32'')
           (now - 60 * day_ns) (now + 120 * day_ns) (now - 50 * day_ns))\<lparr>cred_issued_by_support := True\<rparr>,
         demo_key 118821099 StatusPendingValidation draft_app [get_rule ''/*''] []
           (now - 3 * day_ns) 0 0,
         demo_key 118821200 StatusValidated backup_app [get_rule ''/dedicated/server/*''] (demo_ip ''192.0.2.20/32'')
           (now - 90 * day_ns) (now + 300 * day_ns) 0,
         demo_key 118821300 StatusExpired cron_app [get_rule ''/me/order''] (demo_ip ''192.0.2.30/32'')
           (now - 400 * day_ns) (now - 40 * day_ns) (now - 41 * day_ns),
         demo_key 118821500 StatusValidated deleted_app [get_rule ''/me/order''] []
           (now - 30 * day_ns) (now + 60 * day_ns) (now - 3 * day_ns),
         demo_key 118821400 StatusValidated console_app [get_rule ''/me''] (demo_ip ''192.0.2.40/32'')
           (now - 20 * day_ns) (now + 60 * day_ns) (now - 5 * day_ns)],
      so_applications =
        [demo_app, dns_app, iam_app, ticket_app, draft_app, backup_app, cron_app, leftover_app]\<rparr>"

section \<open>More keys\<close>

definition zero_padded :: "nat \<Rightarrow> string \<Rightarrow> string" where
  "zero_padded n digits = replicate (n - length digits) (CHR ''0'') @ digits"

definition padding_rules :: "access_rule list list" where
  "padding_rules =
     [[get_rule ''/domain/zone/*''],
      [get_rule ''/dedicated/server/*'', mk_rule ''POST'' ''/dedicated/server/*/reboot''],
      [get_rule ''/cloud/project/*''], [get_rule ''/me/bill''], [get_rule ''/*'']]"

definition pad_application :: "nat \<Rightarrow> application" where
  "pad_application g =
     invented (8000 + int g) (''demo'' @ zero_padded 12 (hex_digits (0xc0000 + g)))
       (''service-'' @ zero_padded 3 (nat_digits g)) ''an invented service''"

definition pad_key :: "time \<Rightarrow> nat \<Rightarrow> credential" where
  "pad_key now i =
     (let c = demo_key (119000000 + int i) StatusValidated (pad_application (i div 12))
                (padding_rules ! (i mod length padding_rules))
                [prefix_from (V4 (word_of_nat (198 * 2 ^ 24 + 51 * 2 ^ 16 + 100 * 2 ^ 8 + (1 + i mod 250)))) 32]
                (now - int (30 + i mod 300) * day_ns) (now + int (60 + i mod 200) * day_ns)
                (now - int (i mod 40) * day_ns)
      in if i mod 17 = 0 then c\<lparr>cred_status := StatusExpired, cred_expires_at := now - day_ns\<rparr>
         else if i mod 13 = 0 then c\<lparr>cred_last_used_at := now - 200 * day_ns\<rparr>
         else if i mod 11 = 0 then c\<lparr>cred_expires_at := 0\<rparr>
         else if i mod 7 = 0 then c\<lparr>cred_allowed_ips := []\<rparr>
         else c)"

definition pad_turn :: "time \<Rightarrow> nat \<Rightarrow> store \<Rightarrow> store" where
  "pad_turn now i s =
     s\<lparr>so_applications := (if i mod 12 = 0 then so_applications s @ [pad_application (i div 12)]
                           else so_applications s),
       so_credentials := so_credentials s @ [pad_key now i]\<rparr>"

definition pad :: "nat \<Rightarrow> time \<Rightarrow> store \<Rightarrow> store" where
  "pad n now s = foldl (\<lambda>s i. pad_turn now i s) s [0 ..< n]"

section \<open>The server around it\<close>

definition fixedCatalog :: "snapshot \<Rightarrow> 's \<Rightarrow> snapshot" where
  "fixedCatalog c s = c"

definition demo_options :: "snapshot \<Rightarrow> string \<Rightarrow> string \<Rightarrow> store options" where
  "demo_options routes token csrf =
     \<lparr>opt_provider = store_provider, opt_resolver = Disabled, opt_catalog = fixedCatalog routes,
      opt_token = token, opt_csrf = csrf, opt_endpoint = ''ovh-eu'', opt_version = ''demo'',
      opt_secure_cookie = False\<rparr>"

definition newHandler ::
  "(string \<Rightarrow> string option) \<Rightarrow> err + snapshot \<Rightarrow> string \<Rightarrow> string \<Rightarrow> err + store server" where
  "newHandler sdk_endpoints embedded token csrf =
     (case embedded of
        Inl e \<Rightarrow> Inl (Wrap [e])
      | Inr routes \<Rightarrow> Inr (New sdk_endpoints (demo_options routes token csrf)))"

section \<open>What an operation may change\<close>

text \<open>A key with its blocks rewritten as the effects allow, or as it was.\<close>

definition rewritten :: "effect set \<Rightarrow> credential \<Rightarrow> credential \<Rightarrow> bool" where
  "rewritten E c d \<longleftrightarrow>
     d = c \<or> (\<exists>ps. RewriteAddresses (cred_id c) ps \<in> E \<and> d = c\<lparr>cred_allowed_ips := ps\<rparr>)"

definition store_only :: "effect set \<Rightarrow> store \<Rightarrow> store \<Rightarrow> bool" where
  "store_only E s t \<longleftrightarrow>
     rewritten E (so_current s) (so_current t) \<and>
     subseq (map cred_id (so_credentials t)) (map cred_id (so_credentials s)) \<and>
     (\<forall>d \<in> set (so_credentials t). \<exists>c \<in> set (so_credentials s). rewritten E c d) \<and>
     (\<forall>c \<in> set (so_credentials s). RevokeKey (cred_id c) \<notin> E \<longrightarrow>
        (\<exists>d \<in> set (so_credentials t). rewritten E c d)) \<and>
     subseq (so_applications t) (so_applications s) \<and>
     (\<forall>a \<in> set (so_applications s). DeleteApp (app_id a) \<notin> E \<longrightarrow> a \<in> set (so_applications t))"

lemma rewritten_refl [simp]: "rewritten E c c"
  by (simp add: rewritten_def)

lemma rewritten_id: "rewritten E c d \<Longrightarrow> cred_id d = cred_id c"
  by (auto simp: rewritten_def)

lemma rewritten_application: "rewritten E c d \<Longrightarrow> cred_application d = cred_application c"
  by (auto simp: rewritten_def)

lemma rewritten_trans: "rewritten E c d \<Longrightarrow> rewritten E d e \<Longrightarrow> rewritten E c e"
  by (auto simp: rewritten_def)

lemma rewritten_mono: "rewritten E c d \<Longrightarrow> E \<subseteq> F \<Longrightarrow> rewritten F c d"
  by (auto simp: rewritten_def)

lemma rewritten_some: "c \<in> A \<Longrightarrow> \<exists>d \<in> A. rewritten E c d" "c \<in> A \<Longrightarrow> \<exists>d \<in> A. rewritten E d c"
  by (auto intro: rewritten_refl)

lemma store_only_kept:
  "store_only E s t \<Longrightarrow> c \<in> set (so_credentials s) \<Longrightarrow> RevokeKey (cred_id c) \<notin> E \<Longrightarrow>
   \<exists>d \<in> set (so_credentials t). rewritten E c d"
  by (simp add: store_only_def)

lemma store_only_from:
  "store_only E s t \<Longrightarrow> d \<in> set (so_credentials t) \<Longrightarrow> \<exists>c \<in> set (so_credentials s). rewritten E c d"
  by (simp add: store_only_def)

lemma store_only_refl: "store_only E s s"
  by (simp add: store_only_def rewritten_some)

lemma store_only_trans:
  assumes st: "store_only E s t" and tu: "store_only E t u"
  shows "store_only E s u"
  unfolding store_only_def
proof (intro conjI ballI impI)
  show "rewritten E (so_current s) (so_current u)"
    using st tu rewritten_trans unfolding store_only_def by blast
  show "subseq (map cred_id (so_credentials u)) (map cred_id (so_credentials s))"
    "subseq (so_applications u) (so_applications s)"
    using st tu subseq_order.trans unfolding store_only_def by blast+
  show "\<exists>c \<in> set (so_credentials s). rewritten E c d" if "d \<in> set (so_credentials u)" for d
    using store_only_from [OF tu that] store_only_from [OF st] rewritten_trans by blast
  show "\<exists>d \<in> set (so_credentials u). rewritten E c d"
    if "c \<in> set (so_credentials s)" "RevokeKey (cred_id c) \<notin> E" for c
  proof -
    note kept = store_only_kept [OF st that]
    obtain d where d: "d \<in> set (so_credentials t)" "rewritten E c d" using kept by blast
    with that(2) have "RevokeKey (cred_id d) \<notin> E" by (simp add: rewritten_id)
    with store_only_kept [OF tu d(1)] d(2) rewritten_trans show ?thesis by blast
  qed
  show "a \<in> set (so_applications u)" if "a \<in> set (so_applications s)" "DeleteApp (app_id a) \<notin> E" for a
    using st tu that unfolding store_only_def by blast
qed

lemma store_only_mono:
  assumes "store_only E s t" "E \<subseteq> F"
  shows "store_only F s t"
  using assms rewritten_mono unfolding store_only_def by (meson subsetD)

interpretation stored: effect_frame store_only
  by unfold_locales (rule store_only_refl, erule (1) store_only_trans, erule (1) store_only_mono)

section \<open>The operations\<close>

lemma store_reads [simp]:
  "snd (store_List st s) = s" "snd (store_Get i s) = s" "snd (store_Current s) = s"
  "snd (store_Applications s) = s"
  by (simp_all add: store_List_def store_Get_def store_Current_def store_Applications_def split: option.split)

lemma subseq_map_filter: "subseq (map f (filter P xs)) (map f xs)"
  by (induction xs) auto

lemma store_drop_keys:
  "(\<And>c. c \<in> set (so_credentials s) \<Longrightarrow> \<not> P c \<Longrightarrow> RevokeKey (cred_id c) \<in> E) \<Longrightarrow>
   store_only E s (s\<lparr>so_credentials := filter P (so_credentials s)\<rparr>)"
  by (auto simp: store_only_def subseq_map_filter intro: rewritten_some) (use rewritten_refl in blast)

lemma store_RevokeAgainst_frame: "store_only {RevokeKey i} s (snd (store_RevokeAgainst current i s))"
  by (auto simp: store_RevokeAgainst_def Let_def store_only_refl intro!: store_drop_keys)

lemma store_Retire_frame: "store_only {RevokeKey (cred_id (so_current s))} s (snd (store_Retire s))"
  by (auto simp: store_Retire_def Let_def intro!: store_drop_keys)

lemma store_DeleteApplicationAgainst_frame:
  "store_only {DeleteApp i} s (snd (store_DeleteApplicationAgainst cs i s))"
proof -
  have "subseq (filter P as) as" for P and as :: "application list" by (rule subseq_filter_left)
  then show ?thesis
    by (auto simp: store_DeleteApplicationAgainst_def Let_def store_only_refl store_only_def
        intro: rewritten_some)
qed

lemma set_first_Some:
  assumes "set_first i allowed cs = Some cs'"
  shows "map cred_id cs' = map cred_id cs"
    "list_all2 (rewritten {RewriteAddresses i allowed}) cs cs'"
  using assms
  by (induction cs arbitrary: cs') (auto split: if_splits simp: rewritten_def list_all2_refl)

lemma store_SetAddresses_frame:
  "store_only {RewriteAddresses i allowed} s (snd (store_SetAddresses i allowed s))"
proof (cases "set_first i allowed (so_credentials s)")
  case None
  then show ?thesis by (simp add: store_SetAddresses_def store_only_refl)
next
  case (Some cs)
  note keys = set_first_Some [OF Some]
  have "\<forall>d \<in> set cs. \<exists>c \<in> set (so_credentials s). rewritten {RewriteAddresses i allowed} c d"
    "\<forall>c \<in> set (so_credentials s). \<exists>d \<in> set cs. rewritten {RewriteAddresses i allowed} c d"
    using keys(2) by (metis in_set_conv_nth list_all2_conv_all_nth)+
  then show ?thesis
    using Some keys(1) by (auto simp: store_SetAddresses_def store_only_def rewritten_def)
qed

interpretation memory: provider_contract store_only store_provider "\<lambda>s. Some (cred_id (so_current s))"
proof unfold_locales
  fix i cs st allowed failure and s :: store and e :: "err option" and c cur t :: credential
  show "store_only {} s (snd (pr_list store_provider st s))" "store_only {} s (snd (pr_get store_provider i s))"
    "store_only {} s (snd (pr_current store_provider s))" "store_only {} s (snd (pr_applications store_provider s))"
    by (simp_all add: store_provider_def store_only_refl)
  show "fst (pr_list store_provider st s) = (None, e) \<Longrightarrow> e \<noteq> None"
    "fst (pr_applications store_provider s) = (None, e) \<Longrightarrow> e \<noteq> None"
    by (simp_all add: store_provider_def store_List_def store_Applications_def)
  show "fst (pr_current store_provider s) = Inr c \<Longrightarrow> Some (cred_id (so_current s)) = Some (cred_id c)"
    "fst (pr_current store_provider s) = Inl failure \<Longrightarrow> Some (cred_id (so_current s)) = None"
    by (simp_all add: store_provider_def store_Current_def)
  show "store_only {RevokeKey i} s (snd (pr_revoke store_provider i s))"
    "store_only {RevokeKey i} s (snd (pr_revoke_against store_provider cur i s))"
    by (simp_all add: store_provider_def store_Revoke_def store_RevokeAgainst_frame)
  show "Some (cred_id (so_current s)) = Some i \<Longrightarrow>
      store_only {} s (snd (pr_revoke store_provider i s)) \<and>
      fst (pr_revoke store_provider i s) = Some (Sentinel ErrSelfRevocation)"
    by (simp add: store_provider_def store_Revoke_def store_RevokeAgainst_def store_only_refl)
  show "pr_revoke_against store_provider cur (cred_id cur) s = (Some (Sentinel ErrSelfRevocation), s)"
    by (simp add: store_provider_def store_RevokeAgainst_def)
  show "store_only {DeleteApp i} s (snd (pr_delete_application store_provider i s))"
    "store_only {DeleteApp i} s (snd (pr_delete_application_against store_provider cs i s))"
    using store_DeleteApplicationAgainst_frame [of i s]
    by (simp_all add: store_provider_def store_DeleteApplication_def store_List_def)
  show "c \<in> set cs \<Longrightarrow> app_id (cred_application c) = i \<Longrightarrow>
      pr_delete_application_against store_provider cs i s = (Some (Sentinel ErrApplicationInUse), s)"
    by (auto simp: store_provider_def store_DeleteApplicationAgainst_def list_ex_iff)
  show "store_only ({RevokeKey i |i. Some (cred_id (so_current s)) = Some i} \<union> {ExpireKeyInUse}) s
      (snd (pr_retire store_provider s))"
    using store_only_mono [OF store_Retire_frame [of s]] by (simp add: store_provider_def)
  show "store_only {RewriteAddresses i allowed} s (snd (pr_set_addresses store_provider i allowed s))"
    by (simp add: store_provider_def store_SetAddresses_frame)
  show "pr_revocable store_provider cur t \<longleftrightarrow> permits cur ''DELETE'' (CredentialPath (cred_id t))"
    "pr_deletable_application store_provider cur i \<longleftrightarrow> permits cur ''DELETE'' (ApplicationPath i)"
    "pr_addresses_editable store_provider cur t \<longleftrightarrow> permits cur ''PUT'' (CredentialPath (cred_id t))"
    by (simp_all add: store_provider_def store_Revocable_def store_DeletableApplication_def
        store_AddressesEditable_def)
qed (simp_all add: store_provider_def)

interpretation silent: address_resolver store_only "Disabled :: store resolver"
  by unfold_locales (auto simp: Disabled_def store_only_refl)

lemma demo_server_simps [simp]:
  "sv_provider (New e (demo_options routes token csrf)) = store_provider"
  "sv_resolver (New e (demo_options routes token csrf)) = Disabled"
  by (simp_all add: New_def demo_options_def)

interpretation demo: http_server store_only "New e (demo_options routes token csrf)"
  "\<lambda>s. Some (cred_id (so_current s))" for e routes token csrf
  by (rule http_server.intro)
    (simp_all add: memory.provider_contract_axioms silent.address_resolver_axioms)

end
