(* ===== verification/Demo_Run.thy ===== *)
theory Demo_Run
  imports Demo
begin

text \<open>
  The demo's account over time: its invariant, which \<open>newStore\<close> and \<open>pad\<close> establish and every
  request keeps, whatever the requests and their order. It rests on the facts of the handlers as
  they hold of the store, by the interpretation \<open>demo\<close> of their contract.
\<close>

section \<open>The invariant\<close>

text \<open>
  No two keys and no two applications share an identifier, and the application of a key is in the
  list of applications, unless it is one the listing of the API leaves out.
\<close>

definition unlisted :: "application \<Rightarrow> bool" where
  "unlisted a \<longleftrightarrow> app_external a \<or> app_deleted a"

definition store_inv :: "store \<Rightarrow> bool" where
  "store_inv s \<longleftrightarrow>
     distinct (map cred_id (so_credentials s)) \<and> distinct (map app_id (so_applications s)) \<and>
     (\<forall>c \<in> set (so_credentials s).
        unlisted (cred_application c) \<or> cred_application c \<in> set (so_applications s))"

text \<open>What a change of the store spares: the applications that hold a key.\<close>

definition spares_held :: "effect set \<Rightarrow> store \<Rightarrow> bool" where
  "spares_held E s \<longleftrightarrow> (\<forall>c \<in> set (so_credentials s). DeleteApp (app_id (cred_application c)) \<notin> E)"

lemma subseq_distinct: "subseq xs ys \<Longrightarrow> distinct ys \<Longrightarrow> distinct xs"
  by (auto simp: subseq_conv_nths intro: distinct_nthsI)

lemma store_inv_kept:
  assumes "store_inv s" "store_only E s t" "spares_held E s"
  shows "store_inv t"
  unfolding store_inv_def
proof (intro conjI ballI)
  show "distinct (map cred_id (so_credentials t))"
    using assms(1,2) by (auto simp: store_inv_def store_only_def dest: subseq_distinct)
  have "subseq (map app_id (so_applications t)) (map app_id (so_applications s))"
    using assms(2) by (simp add: store_only_def subseq_map)
  then show "distinct (map app_id (so_applications t))"
    using assms(1) by (auto simp: store_inv_def dest: subseq_distinct)
  fix d assume "d \<in> set (so_credentials t)"
  with assms(2) obtain c where c: "c \<in> set (so_credentials s)" "rewritten E c d"
    using store_only_from by blast
  have "unlisted (cred_application c) \<or> cred_application c \<in> set (so_applications s)"
    using assms(1) c(1) by (simp add: store_inv_def)
  moreover have "cred_application c \<in> set (so_applications t)" if "cred_application c \<in> set (so_applications s)"
    using assms(2,3) c(1) that by (simp add: store_only_def spares_held_def)
  ultimately show "unlisted (cred_application d) \<or> cred_application d \<in> set (so_applications t)"
    using rewritten_application [OF c(2)] by auto
qed

section \<open>The account the demo starts with\<close>

lemma groups_upto:
  "r \<le> 12 \<Longrightarrow> (12 * q + r + 11) div 12 = (if r = 0 then q else Suc q)" for q r :: nat
  by (auto intro!: div_nat_eqI)

lemma pad_groups:
  "(Suc n + 11) div 12 = (if n mod 12 = 0 then Suc ((n + 11) div 12) else (n + 11) div 12)" for n :: nat
  using groups_upto [of "n mod 12" "n div 12"] groups_upto [of "Suc (n mod 12)" "n div 12"]
    mod_less_divisor [of 12 n]
  by (simp_all split: if_splits)

lemma last_group: "n mod 12 = 0 \<Longrightarrow> (n + 11) div 12 = n div 12" for n :: nat
  by (auto simp: mod_eq_0_iff_dvd)

lemma pad_lists:
  "so_credentials (pad n now s) = so_credentials s @ map (pad_key now) [0 ..< n]"
  "so_applications (pad n now s) = so_applications s @ map pad_application [0 ..< (n + 11) div 12]"
proof (induction n)
  case (Suc n)
  have turn: "pad (Suc n) now s = pad_turn now n (pad n now s)" by (simp add: pad_def)
  {
    case 1
    show ?case using Suc(1) by (simp add: turn pad_turn_def)
  next
    case 2
    show ?case using Suc(2) by (simp only: pad_groups) (simp add: turn pad_turn_def last_group)
  }
qed (simp_all add: pad_def)

lemma pad_key_simps [simp]:
  "cred_id (pad_key now i) = 119000000 + int i"
  "cred_application (pad_key now i) = pad_application (i div 12)"
  by (simp_all add: pad_key_def demo_key_def Let_def)

lemma pad_application_id [simp]: "app_id (pad_application g) = 8000 + int g"
  by (simp add: pad_application_def invented_def)

lemma newStore_inv: "store_inv (newStore now)"
  by (simp add: store_inv_def newStore_def demo_current_def demo_key_def unlisted_def
      demo_app_def dns_app_def iam_app_def ticket_app_def draft_app_def backup_app_def cron_app_def
      console_app_def leftover_app_def deleted_app_def invented_def)

lemma newStore_ids:
  "c \<in> set (so_credentials (newStore now)) \<Longrightarrow> cred_id c < 119000000"
  "a \<in> set (so_applications (newStore now)) \<Longrightarrow> app_id a < 8000"
  by (auto simp: newStore_def demo_current_def demo_key_def
      demo_app_def dns_app_def iam_app_def ticket_app_def draft_app_def backup_app_def cron_app_def
      leftover_app_def invented_def)

lemma pad_inv: "store_inv (pad n now (newStore now))"
  unfolding store_inv_def pad_lists
proof (intro conjI ballI)
  have base: "distinct (map cred_id (so_credentials (newStore now)))"
    "distinct (map app_id (so_applications (newStore now)))"
    using newStore_inv [of now] by (simp_all add: store_inv_def)
  have "distinct (map cred_id (map (pad_key now) [0 ..< n]))"
    "distinct (map app_id (map pad_application [0 ..< (n + 11) div 12]))"
    by (auto simp: distinct_map inj_on_def)
  moreover have "cred_id ` set (so_credentials (newStore now)) \<inter> cred_id ` pad_key now ` {0 ..< n} = {}"
    "app_id ` set (so_applications (newStore now)) \<inter> app_id ` pad_application ` {0 ..< (n + 11) div 12} = {}"
    by (auto dest!: newStore_ids simp: not_less)
  ultimately show "distinct (map cred_id (so_credentials (newStore now) @ map (pad_key now) [0 ..< n]))"
    "distinct (map app_id (so_applications (newStore now) @ map pad_application [0 ..< (n + 11) div 12]))"
    using base by (simp_all only: map_append distinct_append set_map set_upt)
  fix c assume "c \<in> set (so_credentials (newStore now) @ map (pad_key now) [0 ..< n])"
  moreover have "i div 12 < (n + 11) div 12" if "i < n" for i
    using div_le_mono [of "i + 12" "n + 11" 12] that by simp
  ultimately show "unlisted (cred_application c) \<or>
      cred_application c \<in> set (so_applications (newStore now) @ map pad_application [0 ..< (n + 11) div 12])"
    using newStore_inv [of now] by (auto simp: store_inv_def)
qed

section \<open>What one request changes\<close>

text \<open>Every effect but the deletion of an application that holds a key, or of the key in use.\<close>

definition harmless :: "store \<Rightarrow> effect set" where
  "harmless s =
     {e. (\<forall>c \<in> set (so_credentials s). e \<noteq> DeleteApp (app_id (cred_application c))) \<and>
         e \<noteq> RevokeKey (cred_id (so_current s))}"

lemma harmless_spares: "spares_held (harmless s) s" "RevokeKey (cred_id (so_current s)) \<notin> harmless s"
  by (auto simp: spares_held_def harmless_def)

lemma demo_list [simp]:
  "list_credentials (New e (demo_options routes token csrf)) s = ((Some (so_credentials s), 0, None), s)"
  by (simp add: list_credentials_def store_provider_def store_List_def list_result_def)

lemma demo_delete_harmless:
  "store_only (harmless s) s (snd (deleteApplication (New e (demo_options routes token csrf)) i s))"
proof (cases "parse_int64 i")
  case (Some n)
  have "store_only (harmless s) s (snd (store_DeleteApplicationAgainst (so_credentials s) n s))"
  proof (cases "\<exists>c \<in> set (so_credentials s). app_id (cred_application c) = n")
    case True
    then show ?thesis
      by (auto simp: store_DeleteApplicationAgainst_def list_ex_iff store_only_refl)
  next
    case False
    then have "{DeleteApp n} \<subseteq> harmless s" by (auto simp: harmless_def)
    then show ?thesis by (rule store_only_mono [OF store_DeleteApplicationAgainst_frame])
  qed
  with Some show ?thesis
    by (simp add: deleteApplication_def store_provider_def store_DeleteApplication_def store_List_def
        Let_def split_beta)
qed (simp add: deleteApplication_def store_only_refl)

lemma demo_keyless_harmless:
  "store_only (harmless s) s (snd (deleteKeylessApplications (New e (demo_options routes token csrf)) s))"
proof (rule store_only_mono [OF demo.deleteKeyless_only])
  show "pr_applications (sv_provider (New e (demo_options routes token csrf))) s =
      ((Some (so_applications s), None), s)"
    "pr_current (sv_provider (New e (demo_options routes token csrf))) s = (Inr (so_current s), s)"
    by (simp_all add: store_provider_def store_Applications_def store_Current_def)
  show "keyless_targets (New e (demo_options routes token csrf)) (right_value (Inr (so_current s) :: err + credential))
      (slice (Some (so_credentials s))) (slice (Some (so_applications s))) \<subseteq> harmless s"
    by (auto simp: harmless_def keyless_targets_def used_by_zero slice_def)
qed (rule demo_list)

lemma demo_sweep_harmless:
  "store_only (harmless s) s (snd (revokeInactive (New e (demo_options routes token csrf)) s))"
proof (rule store_only_mono [OF demo.revokeInactive_only])
  show own: "pr_current (sv_provider (New e (demo_options routes token csrf))) s = (Inr (so_current s), s)"
    by (simp add: store_provider_def store_Current_def)
  show "swept_targets (New e (demo_options routes token csrf)) (right_value (Inr (so_current s) :: err + credential))
      (slice (Some (so_credentials s))) \<subseteq> harmless s"
    using demo.swept_spares_identity [OF own] unfolding harmless_def swept_targets_def by fastforce
qed (rule demo_list)

lemma demo_revoke_harmless:
  "store_only (harmless s) s (snd (revoke (New e (demo_options routes token csrf)) i s))"
  by (rule store_only_mono [OF demo.revoke_only]) (auto simp: harmless_def)

lemma demo_addresses_harmless:
  "store_only (harmless s) s (snd (addresses (New e (demo_options routes token csrf)) i body w s))"
  by (rule store_only_mono [OF demo.addresses_only]) (auto simp: harmless_def address_effects_def)

lemma demo_retire_spares:
  "store_only {RevokeKey (cred_id (so_current s))} s (snd (retire (New e (demo_options routes token csrf)) s))"
  using store_Retire_frame [of s] by (simp add: retire_def store_provider_def Let_def split_beta)

text \<open>Of all the handlers, retirement alone touches the key in use or what a key needs.\<close>

lemma demo_target_harmless:
  "t \<noteq> ToRetire \<Longrightarrow>
   store_only (harmless s) s
     (snd (run_target e (New e' (demo_options routes token csrf)) now r t s))"
proof (cases "reading_target t")
  case True
  then show ?thesis by (rule stored.only_none [OF demo.reading_target_only])
next
  case False
  moreover assume "t \<noteq> ToRetire"
  ultimately show ?thesis
    by (cases t) (simp_all add: run_target_def reading_target_def demo_delete_harmless demo_keyless_harmless
        demo_sweep_harmless demo_revoke_harmless demo_addresses_harmless setAddresses_def)
qed

section \<open>Any requests, in any order\<close>

lemma demo_retire_spares_held:
  "spares_held {RevokeKey (cred_id (so_current s))} s"
  by (simp add: spares_held_def)

lemma demo_target_inv:
  assumes "store_inv s"
  shows "store_inv (snd (run_target e (New e' (demo_options routes token csrf)) now r t s))"
proof (cases "t = ToRetire")
  case True
  with store_inv_kept [OF assms demo_retire_spares demo_retire_spares_held] show ?thesis
    by (simp add: run_target_def)
next
  case False
  with store_inv_kept [OF assms demo_target_harmless harmless_spares(1)] show ?thesis by simp
qed

definition own_key_listed :: "store \<Rightarrow> bool" where
  "own_key_listed s \<longleftrightarrow> cred_id (so_current s) \<in> cred_id ` set (so_credentials s)"

lemma demo_target_own_key:
  assumes "own_key_listed s" "t \<noteq> ToRetire"
  shows "own_key_listed (snd (run_target e (New e' (demo_options routes token csrf)) now r t s))"
    (is "own_key_listed ?t")
proof -
  have only: "store_only (harmless s) s ?t" using assms(2) by (rule demo_target_harmless)
  obtain c where c: "c \<in> set (so_credentials s)" "cred_id c = cred_id (so_current s)"
    using assms(1) by (auto simp: own_key_listed_def)
  then obtain d where "d \<in> set (so_credentials ?t)" "rewritten (harmless s) c d"
    using store_only_kept [OF only c(1)] harmless_spares(2) by auto
  moreover have "rewritten (harmless s) (so_current s) (so_current ?t)"
    using only by (simp add: store_only_def)
  ultimately show ?thesis
    using c(2) unfolding own_key_listed_def by (metis rewritten_id image_eqI)
qed

lemma start_own_key: "own_key_listed (pad n now (newStore now))"
proof -
  have "so_current (pad n now s) = so_current s" for s by (induction n) (simp_all add: pad_def pad_turn_def)
  then show ?thesis by (simp add: own_key_listed_def pad_lists) (simp add: newStore_def)
qed

lemma demo_requests_inv:
  "requests e (New e' (demo_options routes token csrf)) kind s t \<Longrightarrow> store_inv s \<Longrightarrow> store_inv t"
proof (erule requests_keep)
  fix t r now assume "store_inv t"
  then show "store_inv (snd (handle e (New e' (demo_options routes token csrf)) now r t))"
    using handle_runs [of e "New e' (demo_options routes token csrf)" now r t]
      demo_target_inv [of t] by fastforce
qed

lemma demo_requests_own_key:
  assumes "\<And>r. kind r \<Longrightarrow> mux_pattern r \<noteq> Some ToRetire"
  shows "requests e (New e' (demo_options routes token csrf)) kind s t \<Longrightarrow> own_key_listed s \<Longrightarrow> own_key_listed t"
proof (erule requests_keep)
  fix t r now assume "own_key_listed t" "kind r"
  then show "own_key_listed (snd (handle e (New e' (demo_options routes token csrf)) now r t))"
    using handle_runs [of e "New e' (demo_options routes token csrf)" now r t]
      demo_target_own_key [of t] assms by metis
qed

text \<open>
  C13: The demo's account stays consistent whatever it is asked: from the account it starts with,
  of any size, after any requests in any order, no two keys and no two applications share an
  identifier and the application of every key is still listed, unless it is one no listing shows.
  The key in use stays in the list as long as no request asks for its retirement.
\<close>

theorem demo_invariant:
  assumes "newHandler sdk_endpoints (Inr routes) token csrf = Inr srv"
    and "requests sdk_endpoints srv kind (pad n now (newStore now)) s"
  shows "distinct (map cred_id (so_credentials s)) \<and> distinct (map app_id (so_applications s)) \<and>
         (\<forall>c \<in> set (so_credentials s). app_external (cred_application c) \<or> app_deleted (cred_application c) \<or>
            cred_application c \<in> set (so_applications s)) \<and>
         ((\<exists>r. kind r \<and> mux_pattern r = Some ToRetire) \<or>
            (\<exists>c \<in> set (so_credentials s). cred_id c = cred_id (so_current s)))"
proof -
  have srv: "srv = New sdk_endpoints (demo_options routes token csrf)"
    using assms(1) by (simp add: newHandler_def)
  have "store_inv s"
    using demo_requests_inv [OF assms(2) [unfolded srv] pad_inv] .
  moreover have "own_key_listed s" if "\<nexists>r. kind r \<and> mux_pattern r = Some ToRetire"
    using demo_requests_own_key [OF _ assms(2) [unfolded srv] start_own_key] that by blast
  ultimately show ?thesis
    unfolding store_inv_def unlisted_def own_key_listed_def image_iff by (metis (no_types))
qed

text \<open>The sweep of the inactive keys, then the bulk deletion of the applications left without one.\<close>

definition clean_up :: "string \<Rightarrow> http_request" where
  "clean_up path =
     \<lparr>hr_method = ''POST'', hr_raw_path = path, hr_query = [], hr_cookie = Some ''t'', hr_csrf = ''c'',
      hr_addresses = None, hr_rules = None\<rparr>"

definition small_demo :: "store server" where
  "small_demo = New (\<lambda>_. None) (demo_options zero_snapshot ''t'' ''c'')"

definition cleaned :: "time \<Rightarrow> store" where
  "cleaned now =
     snd (handle (\<lambda>_. None) small_demo now (clean_up ''/api/applications/keyless/deletions'')
       (snd (handle (\<lambda>_. None) small_demo now (clean_up ''/api/credentials/inactive/revocations'')
         (pad 2 now (newStore now)))))"

lemma cleaned_lists:
  "map cred_id (so_credentials (cleaned 1000000000000000000)) =
     [118820001, 118820304, 118820517, 118821001, 118821050, 118821099, 118821200, 118821500, 118821400,
      119000001]"
  by code_simp

theorem demo_invariant_witness:
  "\<exists>now. length (so_credentials (cleaned now)) = 10 \<and>
     distinct (map app_id (so_applications (cleaned now))) \<and>
     (\<forall>c \<in> set (so_credentials (cleaned now)).
        app_external (cred_application c) \<or> app_deleted (cred_application c) \<or>
        cred_application c \<in> set (so_applications (cleaned now)))"
proof (intro exI [of _ 1000000000000000000] conjI)
  let ?now = "1000000000000000000"
  have run: "requests (\<lambda>_. None) small_demo (\<lambda>_. True) (pad 2 ?now (newStore ?now)) (cleaned ?now)"
    unfolding cleaned_def by (intro requests.intros TrueI)
  have "newHandler (\<lambda>_. None) (Inr zero_snapshot) ''t'' ''c'' = Inr small_demo"
    by (simp add: newHandler_def small_demo_def)
  note inv = demo_invariant [OF this run]
  then show "distinct (map app_id (so_applications (cleaned ?now)))"
    "\<forall>c \<in> set (so_credentials (cleaned ?now)).
        app_external (cred_application c) \<or> app_deleted (cred_application c) \<or>
        cred_application c \<in> set (so_applications (cleaned ?now))"
    by simp_all
  show "length (so_credentials (cleaned ?now)) = 10"
    using arg_cong [OF cleaned_lists, of length] by (simp only: length_map) simp
qed

end
