(* ===== verification/Process.thy ===== *)
theory Process
  imports Startup Snapshots Demo_Run
begin

text \<open>
  The processes: the command line of \<open>cmd/keymaker/main.go\<close>, the listening loop and the exit status,
  the \<open>main\<close> of \<open>tools/demo\<close>, and the line \<open>internal/httpapi/server.go\<close> logs for a request at debug
  level. The flags are read as Go's \<open>flag\<close> package reads a set with one boolean. The probe's HTTP
  exchange, standard output, the listener and the signals are arguments. The lemmas say what a
  process that does not serve leaves alone, and what the line of a request depends on.
\<close>

section \<open>The command line\<close>

record build_info =
  bd_version :: string
  bd_commit :: string
  bd_date :: string

definition versionLine :: "build_info \<Rightarrow> string" where
  "versionLine b = ''keymaker '' @ bd_version b @ '' (commit '' @ bd_commit b @ '', built '' @ bd_date b @ '')''"

text \<open>\<open>strconv.ParseBool\<close>.\<close>

definition parse_bool :: "string \<Rightarrow> bool option" where
  "parse_bool s =
     (if s \<in> {''1'', ''t'', ''T'', ''true'', ''TRUE'', ''True''} then Some True
      else if s \<in> {''0'', ''f'', ''F'', ''false'', ''FALSE'', ''False''} then Some False
      else None)"

datatype stop = HelpAsked | Stopped_by err

definition flag_error :: stop where "flag_error = Stopped_by (Failure ''flag'')"

text \<open>\<open>FlagSet.Parse\<close> over the one flag \<open>version\<close>; the first argument that is no flag ends it.\<close>

fun parse_flags :: "string list \<Rightarrow> bool \<Rightarrow> stop + bool" where
  "parse_flags [] version = Inr version"
| "parse_flags (arg # args) version =
     (case arg of
        a # b # rest \<Rightarrow>
          if a \<noteq> CHR ''-'' \<or> b = CHR ''-'' \<and> rest = [] then Inr version
          else
            (let name = (if b = CHR ''-'' then rest else b # rest);
                 (key, value) = (case cut_char (CHR ''='') name of
                    None \<Rightarrow> (name, None) | Some (k, v) \<Rightarrow> (k, Some v))
             in if hd name = CHR ''-'' \<or> hd name = CHR ''='' then Inl flag_error
                else if key = ''version'' then
                  (case value of
                     None \<Rightarrow> parse_flags args True
                   | Some v \<Rightarrow>
                       (case parse_bool v of None \<Rightarrow> Inl flag_error | Some on \<Rightarrow> parse_flags args on))
                else if key = ''help'' \<or> key = ''h'' then Inl HelpAsked
                else Inl flag_error)
      | _ \<Rightarrow> Inr version)"

section \<open>A process\<close>

text \<open>Why the listener returned, or the outcome of the shutdown a signal asked for.\<close>

datatype ending = ServerClosed | ListenerFailed err | Signalled "err option"

definition serve :: "ending \<Rightarrow> err option" where
  "serve how =
     (case how of
        ServerClosed \<Rightarrow> None
      | ListenerFailed e \<Rightarrow> Some e
      | Signalled shutdown \<Rightarrow> shutdown)"

record 'w terminal =
  tm_probe :: "string \<Rightarrow> ('w, err + int) op"
  tm_print :: "string \<Rightarrow> ('w, err option) op"
  tm_listen :: "started \<Rightarrow> ('w, ending) op"

definition run_command ::
  "build_info \<Rightarrow> 'w host \<Rightarrow> 'w terminal \<Rightarrow> string list \<Rightarrow> ('w, stop option) op" where
  "run_command b h tm args w =
     (if args \<noteq> [] \<and> hd args = ''healthcheck''
      then (let (e, w') = healthcheck (tm_probe tm) (environment (ho_getenv h) ''KEYMAKER_ADDR'' defaultAddr) w
            in (map_option Stopped_by e, w'))
      else case parse_flags args False of
          Inl stop \<Rightarrow> (Some stop, w)
        | Inr version \<Rightarrow>
            if version
            then (let (e, w') = tm_print tm (versionLine b @ [CHR 0x0A]) w in (map_option Stopped_by e, w'))
            else (case run h w of
                    (Inl e, w') \<Rightarrow> (Some (Stopped_by e), w')
                  | (Inr p, w') \<Rightarrow>
                      (let (how, w'') = tm_listen tm p w' in (map_option Stopped_by (serve how), w''))))"

text \<open>The exit status.\<close>

definition keymaker_main ::
  "build_info \<Rightarrow> 'w host \<Rightarrow> 'w terminal \<Rightarrow> string list \<Rightarrow> ('w, int) op" where
  "keymaker_main b h tm args w =
     (let (stop, w') = run_command b h tm args w
      in (case stop of None \<Rightarrow> 0 | Some HelpAsked \<Rightarrow> 0 | Some (Stopped_by _) \<Rightarrow> 1, w'))"

definition serving_command :: "string list \<Rightarrow> bool" where
  "serving_command args \<longleftrightarrow> \<not> (args \<noteq> [] \<and> hd args = ''healthcheck'') \<and> parse_flags args False = Inr False"

text \<open>
  Only a process that is to serve touches the account. Asked for the health check, the version
  or the help, or given a flag it does not know, it does the same whatever the configuration, the
  random bytes and the rest of the environment are, its listening address apart; and a process that
  is to serve listens only once it has started, and exits with success only if it listened.
\<close>

lemma account_only_to_serve:
  "(\<not> serving_command args \<longrightarrow> ho_getenv h ''KEYMAKER_ADDR'' = ho_getenv h' ''KEYMAKER_ADDR'' \<longrightarrow>
      keymaker_main b h (tm\<lparr>tm_listen := l\<rparr>) args w = keymaker_main b h' (tm\<lparr>tm_listen := l'\<rparr>) args w) \<and>
   (serving_command args \<longrightarrow>
      keymaker_main b h tm args w =
        (case run h w of
           (Inl e, w') \<Rightarrow> (1, w')
         | (Inr p, w') \<Rightarrow>
             (let (how, w'') = tm_listen tm p w' in (if serve how = None then 0 else 1, w''))))"
  by (auto simp: keymaker_main_def run_command_def serving_command_def environment_def Let_def split_beta
      split: sum.split option.split stop.split)

lemma account_only_to_serve_witness:
  "keymaker_main \<lparr>bd_version = ''1'', bd_commit = ''c'', bd_date = ''d''\<rparr> small_host
     \<lparr>tm_probe = (\<lambda>_ w. (Inr 200, w)), tm_print = (\<lambda>s w. (None, w @ s)), tm_listen = (\<lambda>_ w. (ServerClosed, w))\<rparr>
     [''--version''] [] =
   keymaker_main \<lparr>bd_version = ''1'', bd_commit = ''c'', bd_date = ''d''\<rparr> (small_host\<lparr>ho_open := (\<lambda>_. Inl (Failure []))\<rparr>)
     \<lparr>tm_probe = (\<lambda>_ w. (Inr 200, w)), tm_print = (\<lambda>s w. (None, w @ s)), tm_listen = (\<lambda>_ w. (ListenerFailed (Failure []), w))\<rparr>
     [''--version''] []"
proof -
  have "\<not> serving_command [''--version'']" by code_simp
  with account_only_to_serve [where args = "[''--version'']" and h = small_host and w = "[] :: string"
    and h' = "small_host\<lparr>ho_open := (\<lambda>_. Inl (Failure []))\<rparr>"
    and tm = "\<lparr>tm_probe = (\<lambda>_ w. (Inr 200, w)), tm_print = (\<lambda>s w. (None, w @ s)), tm_listen = (\<lambda>_ w. (ServerClosed, w))\<rparr>"
    and l = "\<lambda>_ w. (ServerClosed, w)" and l' = "\<lambda>_ w. (ListenerFailed (Failure []), w)"]
  show ?thesis by (simp add: small_host_def)
qed

section \<open>The line of a request\<close>

text \<open>The status is the first a handler writes; \<open>printed\<close> is how the log prints a duration.\<close>

record status_recorder =
  rc_status :: int
  rc_written :: bool

definition WriteHeader :: "int \<Rightarrow> status_recorder \<Rightarrow> status_recorder" where
  "WriteHeader status r = (if rc_written r then r else r\<lparr>rc_status := status, rc_written := True\<rparr>)"

definition recorded :: "int list \<Rightarrow> int" where
  "recorded written = rc_status (foldl (\<lambda>r status. WriteHeader status r) \<lparr>rc_status = 200, rc_written = False\<rparr> written)"

definition round_ms :: "duration \<Rightarrow> duration" where
  "round_ms d = (let ms = 1000000; r = d mod ms in if r + r < ms then d - r else d + (ms - r))"

definition logRequests ::
  "level \<Rightarrow> (int \<Rightarrow> string) \<Rightarrow> (duration \<Rightarrow> string) \<Rightarrow> http_request \<Rightarrow> int list \<Rightarrow> duration \<Rightarrow> log_record option" where
  "logRequests level digits printed r written elapsed =
     (if level \<noteq> LevelDebug then None
      else Some \<lparr>lr_message = ''request'',
             lr_attrs = [Attr ''method'' True (hr_method r), Attr ''path'' True (url_path r),
               Attr ''status'' False (digits (recorded written)),
               Attr ''duration'' False (printed (round_ms elapsed))]\<rparr>)"

lemma recorded_first: "recorded written = (case written of [] \<Rightarrow> 200 | status # _ \<Rightarrow> status)"
proof -
  have "rc_written r \<Longrightarrow> foldl (\<lambda>r status. WriteHeader status r) r written = r" for r written
    by (induction written) (simp_all add: WriteHeader_def)
  then show ?thesis by (simp add: recorded_def WriteHeader_def split: list.split)
qed

lemma round_ms_near: "round_ms d mod 1000000 = 0 \<and> \<bar>round_ms d - d\<bar> \<le> 500000"
proof -
  define q r where "q = d div 1000000" and "r = d mod 1000000"
  have d: "d = 1000000 * q + r" and r: "0 \<le> r" "r < 1000000" by (simp_all add: q_def r_def)
  have "round_ms d = (if r + r < 1000000 then 1000000 * q else 1000000 * (q + 1))"
    unfolding round_ms_def Let_def r_def [symmetric] using d by simp
  then show ?thesis using d r by auto
qed

text \<open>What the access token stands in, its query and its cookie, is not in the line.\<close>

lemma request_line_of_method_and_path:
  assumes "hr_method r = hr_method r'" "hr_raw_path r = hr_raw_path r'"
  shows "logRequests level digits printed r written elapsed = logRequests level digits printed r' written elapsed"
  using assms by (simp add: logRequests_def url_path_def)

section \<open>The demonstration\<close>

text \<open>
  \<open>main\<close> of the demonstration up to the moment it listens: the address and the number of added keys
  are its flags, the clock is read twice.
\<close>

record demonstration =
  dm_store :: store
  dm_server :: "store server"
  dm_token :: string
  dm_csrf :: string
  dm_printed :: string

definition demo_main ::
  "(nat \<Rightarrow> ('w, err + nat list) op) \<Rightarrow> (string \<Rightarrow> string option) \<Rightarrow> (string \<Rightarrow> err + snapshot) \<Rightarrow>
   time \<Rightarrow> time \<Rightarrow> string \<Rightarrow> int \<Rightarrow> ('w, err + demonstration) op" where
  "demo_main rand sdk_endpoints embedded now now' addr keys w =
     (let (token, w1) = NewToken rand w in
      case token of
        Inl e \<Rightarrow> (Inl e, w1)
      | Inr token \<Rightarrow>
      (let (csrf, w2) = NewToken rand w1 in
      case csrf of
        Inl e \<Rightarrow> (Inl e, w2)
      | Inr csrf \<Rightarrow>
      (case newHandler sdk_endpoints (embedded ''ovh-eu'') token csrf of
        Inl e \<Rightarrow> (Inl e, w2)
      | Inr srv \<Rightarrow>
          (Inr \<lparr>dm_store = pad (nat keys) now' (newStore now), dm_server = srv, dm_token = token,
                dm_csrf = csrf, dm_printed = ''http://'' @ addr @ ''/?token='' @ token\<rparr>, w2))))"

lemma token_alphabet:
  assumes "fills rand" "NewToken rand w = (Inr token, w')"
  shows "c \<in> set token \<Longrightarrow> ascii_alnum c \<or> c \<in> set ''-_''"
proof -
  obtain raw where raw: "rand tokenBytes w = (Inr raw, w')" "token = base64 raw"
    using assms(2) by (auto simp: NewToken_def Let_def split: prod.splits sum.splits)
  show "c \<in> set token \<Longrightarrow> ascii_alnum c \<or> c \<in> set ''-_''"
    using base64_unreserved fillsD [OF assms(1) raw(1)] raw(2) by blast
qed

text \<open>An unreserved value stands in a query as it is.\<close>

lemma plain_query:
  assumes "\<And>c. c \<in> set t \<Longrightarrow> ascii_alnum c \<or> c \<in> set ''-_''"
  shows "decode_query (''token='' @ t) = [(''token'', t)]"
proof -
  have "query_escape t = t" by (rule query_escape_plain) (use assms in auto)
  then have "''token='' @ t = encode_values [(''token'', t)]"
    by (simp add: encode_values_def) code_simp
  then show ?thesis by (simp add: decode_encode_values)
qed

text \<open>
  The address the demonstration prints opens its session: the query it ends with names the access
  token and nothing else, without any escaping, and following it without a cookie is answered with
  the cookie of the session and a redirection to the front page without the token; the account it
  shows is the invented one with the keys asked for, and opening the page leaves it as it is.
\<close>

lemma demo_address_opens_session:
  assumes "fills rand" "demo_main rand sdk_endpoints embedded now now' addr keys w = (Inr dm, w')"
  shows "\<exists>q. dm_printed dm = ''http://'' @ addr @ ''/?'' @ q \<and> decode_query q = [(''token'', dm_token dm)] \<and>
    handle sdk_endpoints (dm_server dm) t
      \<lparr>hr_method = ''GET'', hr_raw_path = ''/'', hr_query = decode_query q, hr_cookie = None,
       hr_csrf = [], hr_addresses = None, hr_rules = None\<rparr> (dm_store dm) =
    ((securityHeaders, Granted (dm_token dm) False ''/''), pad (nat keys) now' (newStore now))"
proof (intro exI conjI)
  let ?q = "''token='' @ dm_token dm"
  from assms(2) obtain w1 csrf routes where token: "NewToken rand w = (Inr (dm_token dm), w1)"
    and built: "dm_server dm = New sdk_endpoints (demo_options routes (dm_token dm) csrf)"
      "dm_printed dm = ''http://'' @ addr @ ''/?token='' @ dm_token dm"
      "dm_store dm = pad (nat keys) now' (newStore now)"
    by (auto simp: demo_main_def newHandler_def Let_def split: prod.splits sum.splits)
  show "dm_printed dm = ''http://'' @ addr @ ''/?'' @ ?q" using built(2) by simp
  show q: "decode_query ?q = [(''token'', dm_token dm)]"
    by (rule plain_query) (rule token_alphabet [OF assms(1) token])
  have "sv_token (dm_server dm) = dm_token dm" "\<not> sv_secure_cookie (dm_server dm)"
    by (simp_all add: built(1) New_def demo_options_def)
  then show "handle sdk_endpoints (dm_server dm) t
      \<lparr>hr_method = ''GET'', hr_raw_path = ''/'', hr_query = decode_query ?q, hr_cookie = None,
       hr_csrf = [], hr_addresses = None, hr_rules = None\<rparr> (dm_store dm) =
    ((securityHeaders, Granted (dm_token dm) False ''/''), pad (nat keys) now' (newStore now))"
    unfolding q built(3) by (subst open_front_page) simp_all
qed

lemma demo_address_opens_session_witness:
  "\<exists>dm. fst (demo_main same_bytes (\<lambda>_. None) (\<lambda>_. Inr zero_snapshot) 0 0 ''127.0.0.1:8081'' 2 ()) = Inr dm \<and>
     (\<exists>q. dm_printed dm = ''http://127.0.0.1:8081/?'' @ q \<and> decode_query q = [(''token'', dm_token dm)])"
proof -
  have fills: "fills (same_bytes :: nat \<Rightarrow> (unit, err + nat list) op)"
    by (simp add: fills_def same_bytes_def list_all_iff)
  obtain dm where dm: "demo_main same_bytes (\<lambda>_. None) (\<lambda>_. Inr zero_snapshot) 0 0 ''127.0.0.1:8081'' 2 () = (Inr dm, ())"
    by (simp add: demo_main_def NewToken_def same_bytes_def newHandler_def Let_def)
  from demo_address_opens_session [OF fills dm, of 0] dm show ?thesis by auto
qed

end
