(* ===== verification/Refinement.thy ===== *)
theory Refinement
  imports Demo Live
begin

text \<open>
  The in-memory store of the demo is what the interface promises, and the provider that talks to
  the API implements it: where the API answers as its documentation says, every operation of the
  legacy provider answers as the store does and leaves the account as the store would. The API is
  a parameter; \<open>documented_reads\<close> and \<open>documented_writes\<close> are what is expected of it, over a view of
  the outside world as an account: its keys as the wire shows them, the key the client signs with,
  its applications and those of other accounts that a key may point at.
\<close>

section \<open>The account behind the API\<close>

record api_view =
  av_current :: int
  av_keys :: "api_credential list"
  av_apps :: "api_application list"
  av_elsewhere :: "api_application list"

definition find_key :: "api_view \<Rightarrow> int \<Rightarrow> api_credential option" where
  "find_key a i = find (\<lambda>k. ac_id k = i) (av_keys a)"

definition find_app :: "api_application list \<Rightarrow> int \<Rightarrow> api_application option" where
  "find_app as i = find (\<lambda>x. aa_id x = i) as"

definition app_of_key :: "api_view \<Rightarrow> int \<Rightarrow> api_application option" where
  "app_of_key a i =
     (case find_key a i of
        None \<Rightarrow> None
      | Some k \<Rightarrow> find_app (av_apps a @ av_elsewhere a) (ac_application_id k))"

definition answer_or :: "int \<Rightarrow> ('x \<Rightarrow> reply) \<Rightarrow> 'x option \<Rightarrow> err + reply" where
  "answer_or code f x = (case x of None \<Rightarrow> Inl (ApiError code) | Some y \<Rightarrow> Inr (f y))"

definition signed_write :: "string \<Rightarrow> string \<Rightarrow> req_body \<Rightarrow> request" where
  "signed_write m path b = \<lparr>req_method = m, req_path = path, req_body = b, req_signed = True\<rparr>"

section \<open>What the API documents\<close>

definition documented_reads :: "'w sdk \<Rightarrow> ('w \<Rightarrow> api_view) \<Rightarrow> bool" where
  "documented_reads sdk view \<longleftrightarrow>
     (\<forall>p w. view (snd (sdk_call sdk (signed_get p) w)) = view w) \<and>
     (\<forall>w. fst (sdk_call sdk (signed_get ''/auth/currentCredential'') w) =
            answer_or 403 ReplyCredential (find_key (view w) (av_current (view w)))) \<and>
     (\<forall>w. fst (sdk_call sdk (signed_get ''/me/api/credential'') w) =
            Inr (ReplyIDs (map ac_id (av_keys (view w))))) \<and>
     (\<forall>i w. fst (sdk_call sdk (signed_get (CredentialPath i)) w) =
            answer_or 404 ReplyCredential (find_key (view w) i)) \<and>
     (\<forall>i w. fst (sdk_call sdk (signed_get (CredentialPath i @ ''/application'')) w) =
            answer_or 404 ReplyApplication (app_of_key (view w) i)) \<and>
     (\<forall>w. fst (sdk_call sdk (signed_get ''/me/api/application'') w) =
            Inr (ReplyIDs (map aa_id (av_apps (view w))))) \<and>
     (\<forall>i w. fst (sdk_call sdk (signed_get (ApplicationPath i)) w) =
            answer_or 404 ReplyApplication (find_app (av_apps (view w)) i))"

text \<open>A write of what is not there is answered not found; any other does what its name says.\<close>

definition done_or_missing :: "'x option \<Rightarrow> api_view \<Rightarrow> api_view \<Rightarrow> err + reply \<Rightarrow> api_view \<Rightarrow> bool" where
  "done_or_missing x before after r reached \<longleftrightarrow>
     (if x = None then r = Inl (ApiError 404) \<and> reached = before
      else (\<exists>v. r = Inr v) \<and> reached = after)"

definition without_key :: "int \<Rightarrow> api_view \<Rightarrow> api_view" where
  "without_key i a = a\<lparr>av_keys := filter (\<lambda>k. ac_id k \<noteq> i) (av_keys a)\<rparr>"

definition with_blocks :: "int \<Rightarrow> string list \<Rightarrow> api_view \<Rightarrow> api_view" where
  "with_blocks i l a =
     a\<lparr>av_keys := map (\<lambda>k. if ac_id k = i then k\<lparr>ac_allowed_ips := l\<rparr> else k) (av_keys a)\<rparr>"

definition without_app :: "int \<Rightarrow> api_view \<Rightarrow> api_view" where
  "without_app i a = a\<lparr>av_apps := filter (\<lambda>x. aa_id x \<noteq> i) (av_apps a)\<rparr>"

definition documented_writes :: "'w sdk \<Rightarrow> ('w \<Rightarrow> api_view) \<Rightarrow> bool" where
  "documented_writes sdk view \<longleftrightarrow>
     (\<forall>i w. let (r, w') = sdk_call sdk (signed_write ''DELETE'' (CredentialPath i) NoBody) w
            in done_or_missing (find_key (view w) i) (view w) (without_key i (view w)) r (view w')) \<and>
     (\<forall>i b w. let (r, w') = sdk_call sdk (signed_write ''PUT'' (CredentialPath i) (AllowedIPs b)) w
            in done_or_missing (find_key (view w) i) (view w)
                 (with_blocks i (case b of None \<Rightarrow> [] | Some l \<Rightarrow> l) (view w)) r (view w')) \<and>
     (\<forall>i w. (\<forall>k \<in> set (av_keys (view w)). ac_application_id k \<noteq> i) \<longrightarrow>
            (let (r, w') = sdk_call sdk (signed_write ''DELETE'' (ApplicationPath i) NoBody) w
             in done_or_missing (find_app (av_apps (view w)) i) (view w) (without_app i (view w)) r (view w')))"

text \<open>An account whose identifiers are distinct, whose blocks can be read, and that holds the key in use.\<close>

definition sound_account :: "api_view \<Rightarrow> bool" where
  "sound_account a \<longleftrightarrow>
     distinct (map ac_id (av_keys a)) \<and> distinct (map aa_id (av_apps a)) \<and>
     (\<forall>k \<in> set (av_keys a). \<exists>ps. parse_allowed (ac_allowed_ips k) = Inr ps) \<and>
     (\<exists>k \<in> set (av_keys a). ac_id k = av_current a)"

section \<open>The store an account stands for\<close>

definition seen_app :: "api_view \<Rightarrow> int \<Rightarrow> application" where
  "seen_app a i =
     (case find_app (av_apps a) i of
        Some x \<Rightarrow> application_toDomain x
      | None \<Rightarrow> (case find_app (av_elsewhere a) i of
          Some x \<Rightarrow> (application_toDomain x)\<lparr>app_external := True\<rparr>
        | None \<Rightarrow> zero_application\<lparr>app_id := i, app_deleted := True\<rparr>))"

definition read_key :: "api_credential \<Rightarrow> credential" where
  "read_key k = (case credential_toDomain k of Inl _ \<Rightarrow> zero_credential | Inr c \<Rightarrow> c)"

definition seen_key :: "api_view \<Rightarrow> api_credential \<Rightarrow> credential" where
  "seen_key a k =
     (if ac_application_id k = 0 then read_key k
      else (read_key k)\<lparr>cred_application := seen_app a (ac_application_id k)\<rparr>)"

definition store_of :: "api_view \<Rightarrow> store" where
  "store_of a =
     \<lparr>so_current = (case find_key a (av_current a) of None \<Rightarrow> zero_credential | Some k \<Rightarrow> seen_key a k),
      so_credentials = map (seen_key a) (av_keys a),
      so_applications = map application_toDomain (av_apps a)\<rparr>"

text \<open>What a caller can tell of an error: the errors of the domain it is.\<close>

definition told :: "err option \<Rightarrow> sentinel set option" where
  "told e = map_option (\<lambda>e. {t. errors_is e t}) e"

section \<open>The calls of the client\<close>

lemma signed_get_eq [simp]:
  "\<lparr>req_method = ''GET'', req_path = p, req_body = NoBody, req_signed = True\<rparr> = signed_get p"
  by (simp add: signed_get_def)

lemma signed_write_eq:
  "\<lparr>req_method = m, req_path = p, req_body = b, req_signed = True\<rparr> = signed_write m p b"
  by (simp add: signed_write_def)

lemma paced_send:
  "failed_with (fst (sdk_call sdk q (net_world s))) \<noteq> 429 \<Longrightarrow>
   paced (send sdk q) s = send sdk q s"
  by (rule paced_once) (simp add: send_def Let_def split_beta)

lemma send_simps [simp]:
  "fst (send sdk q s) = fst (sdk_call sdk q (net_world s))"
  "net_world (snd (send sdk q s)) = snd (sdk_call sdk q (net_world s))"
  by (simp_all add: send_def Let_def split_beta)

lemma api_get_answered:
  assumes "fst (sdk_call sdk (signed_get p) (net_world s)) = Inr v" "into v = Inr x"
  shows "api_get sdk p into s = (Inr x, snd (send sdk (signed_get p) s))"
proof -
  let ?read = "\<lambda>s. let (a, s') = send sdk (signed_get p) s in (case a of Inl e \<Rightarrow> Inl e | Inr v \<Rightarrow> into v, s')"
  have "?read s = (Inr x, snd (send sdk (signed_get p) s))" using assms by (simp add: split_beta Let_def)
  moreover from this have "paced ?read s = ?read s" by (intro paced_once) (simp add: failed_with_def)
  ultimately show ?thesis by (simp add: api_get_def)
qed

lemma api_get_refused:
  assumes "fst (sdk_call sdk (signed_get p) (net_world s)) = Inl (ApiError c)" "c \<noteq> 429" "c \<noteq> 0"
  shows "api_get sdk p into s = (Inl (ApiError c), snd (send sdk (signed_get p) s))"
proof -
  let ?read = "\<lambda>s. let (a, s') = send sdk (signed_get p) s in (case a of Inl e \<Rightarrow> Inl e | Inr v \<Rightarrow> into v, s')"
  have "?read s = (Inl (ApiError c), snd (send sdk (signed_get p) s))"
    using assms(1) by (simp add: split_beta Let_def)
  moreover from this have "paced ?read s = ?read s"
    using assms(2) by (intro paced_once) (simp add: failed_with_def status_code_def)
  ultimately show ?thesis using assms(3) by (simp add: api_get_def status_code_def)
qed

lemma api_get_or:
  assumes "fst (sdk_call sdk (signed_get p) (net_world s)) = answer_or c f x" "c \<noteq> 429" "c \<noteq> 0"
    and "\<And>y. into (f y) = Inr (g y)"
  shows "api_get sdk p into s =
           ((case x of None \<Rightarrow> Inl (ApiError c) | Some y \<Rightarrow> Inr (g y)), snd (send sdk (signed_get p) s))"
  using assms by (cases x) (auto simp: answer_or_def intro: api_get_answered api_get_refused)

lemma api_write_or:
  assumes "sdk_call sdk (signed_write m p b) (net_world s) = (r, w)" "done_or_missing x a a' r (view w)"
  shows "fst (api_write sdk m p b s) = (if x = None then Some (ApiError 404) else None)"
    "view (net_world (snd (api_write sdk m p b s))) = (if x = None then a else a')"
proof -
  have "failed_with r \<noteq> 429" using assms(2) by (auto simp: done_or_missing_def failed_with_def status_code_def split: if_splits)
  then have "paced (send sdk (signed_write m p b)) s = send sdk (signed_write m p b) s"
    using assms(1) by (intro paced_send) simp
  then have "api_write sdk m p b s = (case r of Inl e \<Rightarrow> Some e | Inr _ \<Rightarrow> None, snd (send sdk (signed_write m p b) s))"
    using assms(1) by (simp add: api_write_def signed_write_eq Let_def split_beta)
  then show "fst (api_write sdk m p b s) = (if x = None then Some (ApiError 404) else None)"
    "view (net_world (snd (api_write sdk m p b s))) = (if x = None then a else a')"
    using assms by (auto simp: done_or_missing_def split: if_splits)
qed

section \<open>The reads of the client\<close>

abbreviation acct :: "('w \<Rightarrow> api_view) \<Rightarrow> 'w net \<Rightarrow> api_view" where
  "acct view s \<equiv> view (net_world s)"

lemma sent_read_keeps:
  "documented_reads sdk view \<Longrightarrow> view (snd (sdk_call sdk (signed_get p) w)) = view w"
  by (simp add: documented_reads_def)

lemma into_simps [simp]:
  "into_credential (ReplyCredential k) = Inr k" "into_application (ReplyApplication x) = Inr x"
  "into_ids (ReplyIDs ids) = Inr ids"
  by (simp_all add: into_credential_def into_application_def into_ids_def)

lemma client_reads:
  assumes "documented_reads sdk view"
  shows "cl_current (api_client sdk) s =
       ((case find_key (acct view s) (av_current (acct view s)) of
              None \<Rightarrow> Inl (ApiError 403) | Some k \<Rightarrow> credential_toDomain k),
        snd (send sdk (signed_get ''/auth/currentCredential'') s))"
    "cl_list_credential_ids (api_client sdk) [] s =
       (Inr (map ac_id (av_keys (acct view s))),
        snd (send sdk (signed_get ''/me/api/credential'') s))"
    "cl_credential (api_client sdk) i s =
       ((case find_key (acct view s) i of None \<Rightarrow> Inl (ApiError 404) | Some k \<Rightarrow> credential_toDomain k),
        snd (send sdk (signed_get (CredentialPath i)) s))"
    "cl_credential_application (api_client sdk) i s =
       ((case app_of_key (acct view s) i of None \<Rightarrow> Inl (ApiError 404) | Some x \<Rightarrow> Inr (application_toDomain x)),
        snd (send sdk (signed_get (CredentialPath i @ ''/application'')) s))"
    "cl_list_application_ids (api_client sdk) s =
       (Inr (map aa_id (av_apps (acct view s))),
        snd (send sdk (signed_get ''/me/api/application'') s))"
    "cl_application (api_client sdk) i s =
       ((case find_app (av_apps (acct view s)) i of
          None \<Rightarrow> Inl (ApiError 404) | Some x \<Rightarrow> Inr (application_toDomain x)),
        snd (send sdk (signed_get (ApplicationPath i)) s))"
proof -
  note doc = assms [unfolded documented_reads_def]
  have "api_get sdk ''/auth/currentCredential'' into_credential s =
      ((case find_key (acct view s) (av_current (acct view s)) of None \<Rightarrow> Inl (ApiError 403) | Some k \<Rightarrow> Inr k),
       snd (send sdk (signed_get ''/auth/currentCredential'') s))"
    by (rule api_get_or) (use doc in auto)
  then show "cl_current (api_client sdk) s =
       ((case find_key (acct view s) (av_current (acct view s)) of
              None \<Rightarrow> Inl (ApiError 403) | Some k \<Rightarrow> credential_toDomain k),
        snd (send sdk (signed_get ''/auth/currentCredential'') s))"
    by (simp add: api_client_def api_CurrentCredential_def split: option.split)
  have "api_get sdk ''/me/api/credential'' into_ids s =
      (Inr (map ac_id (av_keys (acct view s))), snd (send sdk (signed_get ''/me/api/credential'') s))"
    by (rule api_get_answered) (use doc in auto)
  then show "cl_list_credential_ids (api_client sdk) [] s =
       (Inr (map ac_id (av_keys (acct view s))),
        snd (send sdk (signed_get ''/me/api/credential'') s))"
    by (simp add: api_client_def api_ListCredentialIDs_def credential_listing_path_def)
  have "api_get sdk (CredentialPath i) into_credential s =
      ((case find_key (acct view s) i of None \<Rightarrow> Inl (ApiError 404) | Some k \<Rightarrow> Inr k),
       snd (send sdk (signed_get (CredentialPath i)) s))"
    by (rule api_get_or) (use doc in auto)
  then show "cl_credential (api_client sdk) i s =
       ((case find_key (acct view s) i of None \<Rightarrow> Inl (ApiError 404) | Some k \<Rightarrow> credential_toDomain k),
        snd (send sdk (signed_get (CredentialPath i)) s))"
    by (simp add: api_client_def api_Credential_def split: option.split)
  have "api_get sdk (CredentialPath i @ ''/application'') into_application s =
      ((case app_of_key (acct view s) i of None \<Rightarrow> Inl (ApiError 404) | Some x \<Rightarrow> Inr x),
       snd (send sdk (signed_get (CredentialPath i @ ''/application'')) s))"
    by (rule api_get_or) (use doc in auto)
  then show "cl_credential_application (api_client sdk) i s =
       ((case app_of_key (acct view s) i of None \<Rightarrow> Inl (ApiError 404) | Some x \<Rightarrow> Inr (application_toDomain x)),
        snd (send sdk (signed_get (CredentialPath i @ ''/application'')) s))"
    by (simp add: api_client_def api_CredentialApplication_def split: option.split)
  have "api_get sdk ''/me/api/application'' into_ids s =
      (Inr (map aa_id (av_apps (acct view s))), snd (send sdk (signed_get ''/me/api/application'') s))"
    by (rule api_get_answered) (use doc in auto)
  then show "cl_list_application_ids (api_client sdk) s =
       (Inr (map aa_id (av_apps (acct view s))),
        snd (send sdk (signed_get ''/me/api/application'') s))"
    by (simp add: api_client_def api_ListApplicationIDs_def)
  have "api_get sdk (ApplicationPath i) into_application s =
      ((case find_app (av_apps (acct view s)) i of None \<Rightarrow> Inl (ApiError 404) | Some x \<Rightarrow> Inr x),
       snd (send sdk (signed_get (ApplicationPath i)) s))"
    by (rule api_get_or) (use doc in auto)
  then show "cl_application (api_client sdk) i s =
       ((case find_app (av_apps (acct view s)) i of
          None \<Rightarrow> Inl (ApiError 404) | Some x \<Rightarrow> Inr (application_toDomain x)),
        snd (send sdk (signed_get (ApplicationPath i)) s))"
    by (simp add: api_client_def api_Application_def split: option.split)
qed

lemma client_reads_keep:
  assumes "documented_reads sdk view"
  shows "acct view (snd (cl_current (api_client sdk) s)) = acct view s"
    "acct view (snd (cl_list_credential_ids (api_client sdk) [] s)) = acct view s"
    "acct view (snd (cl_credential (api_client sdk) i s)) = acct view s"
    "acct view (snd (cl_credential_application (api_client sdk) i s)) = acct view s"
    "acct view (snd (cl_list_application_ids (api_client sdk) s)) = acct view s"
    "acct view (snd (cl_application (api_client sdk) i s)) = acct view s"
  by (simp_all add: client_reads [OF assms] sent_read_keeps [OF assms])

section \<open>The application of a key\<close>

lemma find_app_id: "find_app as i = Some x \<Longrightarrow> aa_id x = i"
  by (auto simp: find_app_def find_Some_iff)

lemma find_app_append:
  "find_app (as @ bs) i = (case find_app as i of None \<Rightarrow> find_app bs i | Some x \<Rightarrow> Some x)"
  by (induction as) (auto simp: find_app_def)

lemma seen_app_id [simp]: "app_id (seen_app a i) = i"
  by (auto simp: seen_app_def application_toDomain_def dest: find_app_id split: option.split)

lemma read_key_toDomain:
  "sound_account a \<Longrightarrow> k \<in> set (av_keys a) \<Longrightarrow> credential_toDomain k = Inr (read_key k)"
  by (auto simp: sound_account_def read_key_def credential_toDomain_def split: sum.splits)

lemma read_key_simps:
  assumes "sound_account a" "k \<in> set (av_keys a)"
  shows "cred_id (read_key k) = ac_id k"
    "cred_application (read_key k) = zero_application\<lparr>app_id := ac_application_id k\<rparr>"
  using assms by (auto simp: read_key_def credential_toDomain_def sound_account_def split: sum.splits)

lemma seen_key_simps:
  assumes "sound_account a" "k \<in> set (av_keys a)"
  shows "cred_id (seen_key a k) = ac_id k" "app_id (cred_application (seen_key a k)) = ac_application_id k"
  using read_key_simps [OF assms] by (simp_all add: seen_key_def)

lemma find_key_member:
  "sound_account a \<Longrightarrow> k \<in> set (av_keys a) \<Longrightarrow> find_key a (ac_id k) = Some k"
proof -
  assume "sound_account a" "k \<in> set (av_keys a)"
  moreover have "distinct (map ac_id ks) \<Longrightarrow> k \<in> set ks \<Longrightarrow> find (\<lambda>x. ac_id x = ac_id k) ks = Some k" for ks
    by (induction ks) (auto simp: rev_image_eqI)
  ultimately show ?thesis by (simp add: find_key_def sound_account_def)
qed

lemma application_of_documented:
  assumes doc: "documented_reads sdk view" and sound: "sound_account (acct view s)"
    and k: "k \<in> set (av_keys (acct view s))"
  shows "fst (application_of (api_client sdk) (read_key k) s) = seen_app (acct view s) (ac_application_id k)"
    "acct view (snd (application_of (api_client sdk) (read_key k) s)) = acct view s"
proof -
  note key = read_key_simps [OF sound k]
  have via: "app_of_key (acct view s) (ac_id k) =
      find_app (av_apps (acct view s) @ av_elsewhere (acct view s)) (ac_application_id k)"
    using find_key_member [OF sound k] by (simp add: app_of_key_def)
  show "fst (application_of (api_client sdk) (read_key k) s) = seen_app (acct view s) (ac_application_id k)"
    using key via
    by (cases "find_app (av_apps (acct view s)) (ac_application_id k)";
        cases "find_app (av_elsewhere (acct view s)) (ac_application_id k)")
      (simp_all add: application_of_def Let_def split_beta client_reads [OF doc] sent_read_keeps [OF doc]
        seen_app_def find_app_append status_code_def)
  show "acct view (snd (application_of (api_client sdk) (read_key k) s)) = acct view s"
    by (simp add: application_of_def Let_def split_beta client_reads_keep [OF doc] split: sum.split)
qed

section \<open>A pool of reads\<close>

text \<open>A pool whose calls keep a property of the state, and answer by it, fills its slots whatever the order.\<close>

lemma run_pool_under:
  assumes call: "\<And>i s. Q s \<Longrightarrow> i < n \<Longrightarrow> fst (f i s) = g i \<and> Q (snd (f i s))"
    and order: "distinct is" "set is \<subseteq> {..<n}" and "length slots = n" "Q s"
  shows "Q (snd (run_pool f is slots s)) \<and>
         (\<forall>i \<in> set is. fst (run_pool f is slots s) ! i = g i)"
  using order assms(4,5)
proof (induction "is" arbitrary: slots s)
  case (Cons i "is")
  then have i: "i < n" "Q s" by simp_all
  note one = call [OF i(2) i(1)]
  have "Q (snd (run_pool f is (slots[i := g i]) (snd (f i s)))) \<and>
      (\<forall>j \<in> set is. fst (run_pool f is (slots[i := g i]) (snd (f i s))) ! j = g j)"
    using Cons.prems one by (intro Cons.IH) auto
  moreover have "fst (run_pool f is (slots[i := g i]) (snd (f i s))) ! i = g i"
    using Cons.prems i by (subst run_pool_unvisited) auto
  ultimately show ?case using one by (auto simp: Let_def split_beta)
qed simp

lemma run_pool_map:
  assumes "fair_schedule sched" "\<And>i s. Q s \<Longrightarrow> i < length xs \<Longrightarrow> fst (f i s) = h (xs ! i) \<and> Q (snd (f i s))" "Q s"
  shows "fst (run_pool f (sched s' (length xs)) (replicate (length xs) z) s) = map h xs"
    "Q (snd (run_pool f (sched s' (length xs)) (replicate (length xs) z) s))"
proof -
  have order: "distinct (sched s' (length xs))" "set (sched s' (length xs)) = {..<length xs}"
    using assms(1) by (simp_all add: fair_schedule_def)
  have pool: "Q (snd (run_pool f (sched s' (length xs)) (replicate (length xs) z) s)) \<and>
      (\<forall>i \<in> set (sched s' (length xs)). fst (run_pool f (sched s' (length xs)) (replicate (length xs) z) s) ! i = h (xs ! i))"
    by (rule run_pool_under [where n = "length xs"]) (use assms order in auto)
  then show "Q (snd (run_pool f (sched s' (length xs)) (replicate (length xs) z) s))" by blast
  show "fst (run_pool f (sched s' (length xs)) (replicate (length xs) z) s) = map h xs"
    by (rule nth_equalityI) (use pool order in auto)
qed

lemma representatives_from: "set (representatives seen cs) \<subseteq> set cs"
  by (induction seen cs rule: representatives.induct) (auto simp: Let_def)

lemma representatives_ids:
  "set (map (\<lambda>c. app_id (cred_application c)) (representatives seen cs)) =
     set (map (\<lambda>c. app_id (cred_application c)) cs) - set seen - {0}"
  by (induction seen cs rule: representatives.induct) (auto simp: Let_def)

lemma resolve_documented:
  assumes doc: "documented_reads sdk view" and sound: "sound_account (acct view s)"
    and fair: "fair_schedule sched" and ks: "set ks \<subseteq> set (av_keys (acct view s))"
  shows "fst (resolveApplications sched (api_client sdk) (map read_key ks) s) = map (seen_key (acct view s)) ks"
    "acct view (snd (resolveApplications sched (api_client sdk) (map read_key ks) s)) = acct view s"
proof -
  let ?a = "acct view s" and ?reps = "representatives [] (map read_key ks)"
  let ?id = "\<lambda>c. app_id (cred_application c)"
  let ?pool = "run_pool (\<lambda>i. application_of (api_client sdk) (?reps ! i)) (sched s (length ?reps))
                (replicate (length ?reps) zero_application) s"
  have rep: "\<exists>k \<in> set (av_keys ?a). c = read_key k" if "c \<in> set ?reps" for c
    using that representatives_from [of "[]" "map read_key ks"] ks by auto
  have call: "fst (application_of (api_client sdk) (?reps ! i) t) = seen_app ?a (?id (?reps ! i)) \<and>
      acct view (snd (application_of (api_client sdk) (?reps ! i) t)) = ?a"
    if t: "acct view t = ?a" and i: "i < length ?reps" for i t
  proof -
    obtain k where k: "k \<in> set (av_keys ?a)" "?reps ! i = read_key k" using rep i nth_mem by blast
    then show ?thesis
      using application_of_documented [OF doc, of t k] t sound read_key_simps [OF sound k(1)] by simp
  qed
  note pool = run_pool_map [where Q = "\<lambda>t. acct view t = ?a" and h = "\<lambda>c. seen_app ?a (?id c)"
      and s' = s and z = zero_application, OF fair call refl]
  have known: "map_of (zip (map ?id ?reps) (fst ?pool)) =
      (\<lambda>i. if i \<in> set (map ?id ?reps) then Some (seen_app ?a i) else None)"
    using map_of_zip_map [of "map ?id ?reps" "seen_app ?a"] pool(1) by (simp add: comp_def)
  have one: "(case map_of (zip (map ?id ?reps) (fst ?pool)) (?id (read_key k)) of
        None \<Rightarrow> read_key k | Some a \<Rightarrow> (read_key k)\<lparr>cred_application := a\<rparr>) = seen_key ?a k"
    if "k \<in> set ks" for k
  proof -
    have "k \<in> set (av_keys ?a)" using that ks by blast
    then have id: "?id (read_key k) = ac_application_id k" using read_key_simps [OF sound] by simp
    moreover have "?id (read_key k) \<in> ?id ` set (map read_key ks)" using that by simp
    ultimately have "ac_application_id k \<in> set (map ?id ?reps) \<longleftrightarrow> ac_application_id k \<noteq> 0"
      unfolding representatives_ids by auto
    then show ?thesis unfolding known id by (simp add: seen_key_def)
  qed
  show "acct view (snd (resolveApplications sched (api_client sdk) (map read_key ks) s)) = ?a"
    using pool(2) by (simp add: resolveApplications_def Let_def split_beta)
  show "fst (resolveApplications sched (api_client sdk) (map read_key ks) s) = map (seen_key ?a) ks"
    using one by (simp add: resolveApplications_def Let_def split_beta)
qed

section \<open>The reads of the provider\<close>

lemma collect_all_fetched: "collect_fetched (map (\<lambda>k. Fetched (f k)) ks) = (Some (map f ks), None)"
proof -
  have "fetched_credentials (map (\<lambda>k. Fetched (f k)) ks) = map f ks" by (induction ks) simp_all
  moreover have "errors_join (map fetch_failure (map (\<lambda>k. Fetched (f k)) ks)) = None"
    by (simp add: errors_join_None fetch_failure_def)
  ultimately show ?thesis by (simp add: collect_fetched_def)
qed

lemma fetchAll_documented:
  assumes doc: "documented_reads sdk view" and sound: "sound_account (acct view s)" and fair: "fair_schedule sched"
  shows "fst (fetchAll sched (api_client sdk) (map ac_id (av_keys (acct view s))) s) =
           (Some (map read_key (av_keys (acct view s))), None)"
    "acct view (snd (fetchAll sched (api_client sdk) (map ac_id (av_keys (acct view s))) s)) = acct view s"
proof -
  let ?a = "acct view s"
  let ?ids = "map ac_id (av_keys ?a)"
  let ?slot = "\<lambda>i. classify (case find_key ?a i of None \<Rightarrow> Inl (ApiError 404) | Some k \<Rightarrow> credential_toDomain k)"
  have call: "fst (fetch_one (api_client sdk) (?ids ! i) t) = ?slot (?ids ! i) \<and>
      acct view (snd (fetch_one (api_client sdk) (?ids ! i) t)) = ?a"
    if t: "acct view t = ?a" and i: "i < length ?ids" for i t
    using t by (simp add: fetch_one_classify client_reads [OF doc])
      (simp add: fetch_one_def Let_def split_beta client_reads_keep [OF doc])
  note pool = run_pool_map [where Q = "\<lambda>t. acct view t = ?a" and h = ?slot and s' = s and xs = ?ids
      and f = "\<lambda>i. fetch_one (api_client sdk) (?ids ! i)" and z = "Fetched zero_credential", OF fair call refl]
  have "map ?slot ?ids = map (\<lambda>k. Fetched (read_key k)) (av_keys ?a)"
    by (simp add: find_key_member [OF sound] read_key_toDomain [OF sound] classify_def)
  then show "fst (fetchAll sched (api_client sdk) ?ids s) = (Some (map read_key (av_keys ?a)), None)"
    using pool(1) by (simp only: fetchAll_def Let_def split_beta length_map fst_conv collect_all_fetched)
  show "acct view (snd (fetchAll sched (api_client sdk) ?ids s)) = ?a"
    using pool(2) by (simp add: fetchAll_def Let_def split_beta)
qed

lemma list_documented:
  assumes doc: "documented_reads sdk view" and sound: "sound_account (acct view s)" and fair: "fair_schedule sched"
  shows "fst (legacy_List sched (api_client sdk) [] s) = fst (store_List [] (store_of (acct view s)))"
    "acct view (snd (legacy_List sched (api_client sdk) [] s)) = acct view s"
proof -
  let ?s1 = "snd (cl_list_credential_ids (api_client sdk) [] s)"
  have s1: "acct view ?s1 = acct view s" by (rule client_reads_keep [OF doc])
  note all = fetchAll_documented [OF doc _ fair, of ?s1, unfolded s1, OF sound]
  let ?s2 = "snd (fetchAll sched (api_client sdk) (map ac_id (av_keys (acct view s))) ?s1)"
  note resolved = resolve_documented [OF doc _ fair, of ?s2, unfolded all(2), OF sound subset_refl]
  have "legacy_List sched (api_client sdk) [] s =
      ((Some (fst (resolveApplications sched (api_client sdk) (map read_key (av_keys (acct view s))) ?s2)), None),
       snd (resolveApplications sched (api_client sdk) (map read_key (av_keys (acct view s))) ?s2))"
    using all(1) client_reads(2) [OF doc, of s]
    by (simp add: legacy_List_def Let_def split_beta)
  then show "fst (legacy_List sched (api_client sdk) [] s) = fst (store_List [] (store_of (acct view s)))"
    "acct view (snd (legacy_List sched (api_client sdk) [] s)) = acct view s"
    using resolved by (simp_all add: store_List_def store_of_def)
qed

lemma resolve_one_documented:
  assumes doc: "documented_reads sdk view" and sound: "sound_account (acct view s)" and fair: "fair_schedule sched"
    and k: "k \<in> set (av_keys (acct view s))"
  shows "fst (resolve_one sched (api_client sdk) (read_key k) s) = seen_key (acct view s) k"
    "acct view (snd (resolve_one sched (api_client sdk) (read_key k) s)) = acct view s"
  using resolve_documented [OF doc sound fair, of "[k]"] k
  by (simp_all add: resolve_one_def Let_def split_beta)

lemma find_key_Some: "find_key a i = Some k \<Longrightarrow> k \<in> set (av_keys a) \<and> ac_id k = i"
  by (auto simp: find_key_def find_Some_iff)

lemma current_found:
  assumes "sound_account a"
  obtains k where "find_key a (av_current a) = Some k" "k \<in> set (av_keys a)" "ac_id k = av_current a"
proof -
  obtain k where "k \<in> set (av_keys a)" "ac_id k = av_current a"
    using assms by (auto simp: sound_account_def)
  with find_key_member [OF assms] that show thesis by metis
qed

lemma current_documented:
  assumes doc: "documented_reads sdk view" and sound: "sound_account (acct view s)" and fair: "fair_schedule sched"
  shows "fst (legacy_Current sched (api_client sdk) s) = fst (store_Current (store_of (acct view s)))"
    "acct view (snd (legacy_Current sched (api_client sdk) s)) = acct view s"
proof -
  obtain k where k: "find_key (acct view s) (av_current (acct view s)) = Some k" "k \<in> set (av_keys (acct view s))"
    using sound by (rule current_found)
  let ?s1 = "snd (cl_current (api_client sdk) s)"
  have s1: "acct view ?s1 = acct view s" by (rule client_reads_keep [OF doc])
  note one = resolve_one_documented [OF doc _ fair, of ?s1, unfolded s1, OF sound k(2)]
  have "fst (cl_current (api_client sdk) s) = Inr (read_key k)"
    using k by (simp add: client_reads [OF doc] read_key_toDomain [OF sound])
  with one k(1) show "fst (legacy_Current sched (api_client sdk) s) = fst (store_Current (store_of (acct view s)))"
    "acct view (snd (legacy_Current sched (api_client sdk) s)) = acct view s"
    by (simp_all add: legacy_Current_def Let_def split_beta store_Current_def store_of_def)
qed

text \<open>A failed call as the caller can tell it.\<close>

definition told_of :: "err + 'a \<Rightarrow> sentinel set + 'a" where
  "told_of r = (case r of Inl e \<Rightarrow> Inl {t. errors_is e t} | Inr x \<Rightarrow> Inr x)"

lemma find_seen_key:
  assumes "sound_account a"
  shows "find (\<lambda>c. cred_id c = i) (map (seen_key a) (av_keys a)) = map_option (seen_key a) (find_key a i)"
proof -
  have "set ks \<subseteq> set (av_keys a) \<Longrightarrow>
      find (\<lambda>c. cred_id c = i) (map (seen_key a) ks) = map_option (seen_key a) (find (\<lambda>k. ac_id k = i) ks)" for ks
    by (induction ks) (auto simp: seen_key_simps [OF assms])
  then show ?thesis by (simp add: find_key_def)
qed

lemma told_simps [simp]:
  "Collect (errors_is (Wrap [translate (ApiError 404)])) = {ErrNotFound}"
  "Collect (errors_is (Sentinel t)) = {t}"
  by (auto simp: translate_def status_code_def)

lemma get_documented:
  assumes doc: "documented_reads sdk view" and sound: "sound_account (acct view s)" and fair: "fair_schedule sched"
  shows "told_of (fst (legacy_Get sched (api_client sdk) i s)) = told_of (fst (store_Get i (store_of (acct view s))))"
    "acct view (snd (legacy_Get sched (api_client sdk) i s)) = acct view s"
proof -
  let ?s1 = "snd (cl_credential (api_client sdk) i s)"
  have s1: "acct view ?s1 = acct view s" by (rule client_reads_keep [OF doc])
  have store: "fst (store_Get i (store_of (acct view s))) =
      (case find_key (acct view s) i of None \<Rightarrow> Inl (Sentinel ErrNotFound) | Some k \<Rightarrow> Inr (seen_key (acct view s) k))"
    by (simp add: store_Get_def store_of_def find_seen_key [OF sound] split: option.split)
  have "told_of (fst (legacy_Get sched (api_client sdk) i s)) = told_of (fst (store_Get i (store_of (acct view s)))) \<and>
      acct view (snd (legacy_Get sched (api_client sdk) i s)) = acct view s"
  proof (cases "find_key (acct view s) i")
    case None
    then have "fst (cl_credential (api_client sdk) i s) = Inl (ApiError 404)" by (simp add: client_reads [OF doc])
    with None s1 store show ?thesis by (simp add: legacy_Get_def Let_def split_beta told_of_def)
  next
    case (Some k)
    then have k: "k \<in> set (av_keys (acct view s))" using find_key_Some by blast
    note one = resolve_one_documented [OF doc _ fair, of ?s1, unfolded s1, OF sound k]
    have "fst (cl_credential (api_client sdk) i s) = Inr (read_key k)"
      using Some by (simp add: client_reads [OF doc] read_key_toDomain [OF sound k])
    with one Some store show ?thesis by (simp add: legacy_Get_def Let_def split_beta told_of_def)
  qed
  then show "told_of (fst (legacy_Get sched (api_client sdk) i s)) = told_of (fst (store_Get i (store_of (acct view s))))"
    "acct view (snd (legacy_Get sched (api_client sdk) i s)) = acct view s"
    by blast+
qed

lemma find_app_member:
  assumes "sound_account a" "x \<in> set (av_apps a)"
  shows "find_app (av_apps a) (aa_id x) = Some x"
proof -
  have "distinct (map aa_id ys) \<Longrightarrow> x \<in> set ys \<Longrightarrow> find (\<lambda>y. aa_id y = aa_id x) ys = Some x" for ys
    by (induction ys) (auto simp: rev_image_eqI)
  with assms show ?thesis by (simp add: find_app_def sound_account_def)
qed

lemma applications_documented:
  assumes doc: "documented_reads sdk view" and sound: "sound_account (acct view s)" and fair: "fair_schedule sched"
  shows "fst (legacy_Applications sched (api_client sdk) s) = fst (store_Applications (store_of (acct view s)))"
    "acct view (snd (legacy_Applications sched (api_client sdk) s)) = acct view s"
proof -
  let ?a = "acct view s" and ?s1 = "snd (cl_list_application_ids (api_client sdk) s)"
  let ?ids = "map aa_id (av_apps ?a)"
  let ?slot = "\<lambda>i. case find_app (av_apps ?a) i of
       None \<Rightarrow> Inl (Wrap [translate (ApiError 404)]) | Some x \<Rightarrow> Inr (application_toDomain x)"
  have s1: "acct view ?s1 = ?a" by (rule client_reads_keep [OF doc])
  have call: "fst (fetch_application (api_client sdk) (?ids ! i) t) = ?slot (?ids ! i) \<and>
      acct view (snd (fetch_application (api_client sdk) (?ids ! i) t)) = ?a"
    if t: "acct view t = ?a" and i: "i < length ?ids" for i t
    using t by (simp add: fetch_application_def Let_def split_beta client_reads [OF doc] sent_read_keeps [OF doc]
        split: option.split)
  note pool = run_pool_map [where Q = "\<lambda>t. acct view t = ?a" and h = ?slot and s' = ?s1 and xs = ?ids
      and f = "\<lambda>i. fetch_application (api_client sdk) (?ids ! i)" and z = "Inr zero_application", OF fair call s1]
  have slots: "map ?slot ?ids = map (\<lambda>x. Inr (application_toDomain x)) (av_apps ?a)"
    by (simp add: find_app_member [OF sound])
  have collected: "collect_applications (map (\<lambda>x. Inr (f x)) xs) = (Some (map f xs), None)"
    for f :: "api_application \<Rightarrow> application" and xs
  proof -
    have "read_applications (map (\<lambda>x. Inr (f x)) xs) = map f xs" by (induction xs) simp_all
    moreover have "errors_join (map application_failure (map (\<lambda>x. Inr (f x)) xs)) = None"
      by (simp add: errors_join_None application_failure_def)
    ultimately show ?thesis by (simp add: collect_applications_def)
  qed
  have "legacy_Applications sched (api_client sdk) s =
      (let (slots, s2) = run_pool (\<lambda>i. fetch_application (api_client sdk) (?ids ! i)) (sched ?s1 (length ?ids))
                          (replicate (length ?ids) (Inr zero_application)) ?s1
       in (collect_applications slots, s2))"
    using client_reads(5) [OF doc, of s] by (simp add: legacy_Applications_def Let_def)
  with pool slots show "fst (legacy_Applications sched (api_client sdk) s) = fst (store_Applications (store_of ?a))"
    "acct view (snd (legacy_Applications sched (api_client sdk) s)) = ?a"
    by (simp_all only: Let_def split_beta fst_conv snd_conv collected store_Applications_def store_of_def
        store.select_convs)
qed

section \<open>The writes\<close>

lemma write_documented:
  assumes "documented_writes sdk view"
  shows "fst (cl_delete_credential (api_client sdk) i s) =
           (if find_key (acct view s) i = None then Some (ApiError 404) else None)"
    "acct view (snd (cl_delete_credential (api_client sdk) i s)) =
       (if find_key (acct view s) i = None then acct view s else without_key i (acct view s))"
    "fst (cl_set_allowed_ips (api_client sdk) i ps s) =
       (if find_key (acct view s) i = None then Some (ApiError 404) else None)"
    "acct view (snd (cl_set_allowed_ips (api_client sdk) i ps s)) =
       (if find_key (acct view s) i = None then acct view s
        else with_blocks i (map prefix_string ps) (acct view s))"
    "\<forall>k \<in> set (av_keys (acct view s)). ac_application_id k \<noteq> i \<Longrightarrow>
       fst (cl_delete_application (api_client sdk) i s) =
         (if find_app (av_apps (acct view s)) i = None then Some (ApiError 404) else None)"
    "\<forall>k \<in> set (av_keys (acct view s)). ac_application_id k \<noteq> i \<Longrightarrow>
       acct view (snd (cl_delete_application (api_client sdk) i s)) =
         (if find_app (av_apps (acct view s)) i = None then acct view s else without_app i (acct view s))"
proof -
  obtain r w where d: "sdk_call sdk (signed_write ''DELETE'' (CredentialPath i) NoBody) (net_world s) = (r, w)"
    by (metis surj_pair)
  moreover have "let (r, w') = sdk_call sdk (signed_write ''DELETE'' (CredentialPath i) NoBody) (net_world s)
      in done_or_missing (find_key (acct view s) i) (acct view s) (without_key i (acct view s)) r (view w')"
    using assms unfolding documented_writes_def by blast
  ultimately have "done_or_missing (find_key (acct view s) i) (acct view s) (without_key i (acct view s)) r (view w)"
    by simp
  note del = api_write_or [where view = view, OF d this]
  show "fst (cl_delete_credential (api_client sdk) i s) =
           (if find_key (acct view s) i = None then Some (ApiError 404) else None)"
    "acct view (snd (cl_delete_credential (api_client sdk) i s)) =
       (if find_key (acct view s) i = None then acct view s else without_key i (acct view s))"
    using del by (simp_all add: api_client_def api_DeleteCredential_def)
  obtain r w where p: "sdk_call sdk (signed_write ''PUT'' (CredentialPath i) (allowed_body ps)) (net_world s) = (r, w)"
    by (metis surj_pair)
  have "done_or_missing (find_key (acct view s) i) (acct view s)
      (with_blocks i (map prefix_string ps) (acct view s)) r (view w)"
  proof -
    let ?b = "if ps = [] then None else Some (map prefix_string ps)"
    have "let (r, w') = sdk_call sdk (signed_write ''PUT'' (CredentialPath i) (AllowedIPs ?b)) (net_world s)
        in done_or_missing (find_key (acct view s) i) (acct view s)
             (with_blocks i (case ?b of None \<Rightarrow> [] | Some l \<Rightarrow> l) (acct view s)) r (view w')"
      using assms unfolding documented_writes_def by blast
    with p show ?thesis by (cases ps) (simp_all add: allowed_body_def)
  qed
  note put = api_write_or [where view = view, OF p this]
  show "fst (cl_set_allowed_ips (api_client sdk) i ps s) =
       (if find_key (acct view s) i = None then Some (ApiError 404) else None)"
    "acct view (snd (cl_set_allowed_ips (api_client sdk) i ps s)) =
       (if find_key (acct view s) i = None then acct view s
        else with_blocks i (map prefix_string ps) (acct view s))"
    using put by (simp_all add: api_client_def api_SetAllowedIPs_def)
  assume free: "\<forall>k \<in> set (av_keys (acct view s)). ac_application_id k \<noteq> i"
  obtain r w where a: "sdk_call sdk (signed_write ''DELETE'' (ApplicationPath i) NoBody) (net_world s) = (r, w)"
    by (metis surj_pair)
  moreover have "let (r, w') = sdk_call sdk (signed_write ''DELETE'' (ApplicationPath i) NoBody) (net_world s)
      in done_or_missing (find_app (av_apps (acct view s)) i) (acct view s) (without_app i (acct view s)) r (view w')"
    using assms free unfolding documented_writes_def by blast
  ultimately have "done_or_missing (find_app (av_apps (acct view s)) i) (acct view s) (without_app i (acct view s)) r (view w)"
    by simp
  note app = api_write_or [where view = view, OF a this]
  show "fst (cl_delete_application (api_client sdk) i s) =
         (if find_app (av_apps (acct view s)) i = None then Some (ApiError 404) else None)"
    "acct view (snd (cl_delete_application (api_client sdk) i s)) =
         (if find_app (av_apps (acct view s)) i = None then acct view s else without_app i (acct view s))"
    using app by (simp_all add: api_client_def api_DeleteApplication_def)
qed

lemma seen_keys_filter:
  assumes "sound_account a"
  shows "map (seen_key a) (filter (\<lambda>k. ac_id k \<noteq> i) (av_keys a)) =
           filter (\<lambda>c. cred_id c \<noteq> i) (map (seen_key a) (av_keys a))"
proof -
  have "set ks \<subseteq> set (av_keys a) \<Longrightarrow>
      map (seen_key a) (filter (\<lambda>k. ac_id k \<noteq> i) ks) = filter (\<lambda>c. cred_id c \<noteq> i) (map (seen_key a) ks)" for ks
    by (induction ks) (auto simp: seen_key_simps [OF assms])
  then show ?thesis by simp
qed

lemma seen_key_same_apps: "av_apps b = av_apps a \<Longrightarrow> av_elsewhere b = av_elsewhere a \<Longrightarrow> seen_key b = seen_key a"
  by (simp add: seen_key_def seen_app_def fun_eq_iff split: option.split)

lemma find_filter_other: "i \<noteq> j \<Longrightarrow> find (\<lambda>k. ac_id k = j) (filter (\<lambda>k. ac_id k \<noteq> i) ks) = find (\<lambda>k. ac_id k = j) ks"
  by (induction ks) auto

lemma without_key_store:
  assumes "sound_account a" "i \<noteq> av_current a"
  shows "store_of (without_key i a) = (store_of a)\<lparr>so_credentials := filter (\<lambda>c. cred_id c \<noteq> i) (so_credentials (store_of a))\<rparr>"
    "sound_account (without_key i a)"
proof -
  have "seen_key (without_key i a) = seen_key a" by (rule seen_key_same_apps) (simp_all add: without_key_def)
  then show "store_of (without_key i a) = (store_of a)\<lparr>so_credentials := filter (\<lambda>c. cred_id c \<noteq> i) (so_credentials (store_of a))\<rparr>"
    using assms(2) by (simp add: store_of_def without_key_def find_key_def find_filter_other seen_keys_filter [OF assms(1)]
        split: option.split)
  show "sound_account (without_key i a)"
    using assms by (auto simp: sound_account_def without_key_def distinct_map_filter)
qed

lemma find_key_None: "find_key a i = None \<longleftrightarrow> (\<forall>k \<in> set (av_keys a). ac_id k \<noteq> i)"
  by (auto simp: find_key_def find_None_iff)

lemma seen_ids: "sound_account a \<Longrightarrow> cred_id ` set (so_credentials (store_of a)) = ac_id ` set (av_keys a)"
  by (auto simp: store_of_def seen_key_simps image_iff)

lemma store_current_id: "sound_account a \<Longrightarrow> cred_id (so_current (store_of a)) = av_current a"
  by (rule current_found [of a]) (simp_all add: store_of_def seen_key_simps)

lemma filter_length_eq: "length (filter P xs) = length xs \<longleftrightarrow> (\<forall>x \<in> set xs. P x)"
  by (metis filter_True filter_id_conv length_filter_less order_less_irrefl)

lemma revoke_against_documented:
  assumes doc: "documented_writes sdk view" and sound: "sound_account (acct view s)"
    and id: "cred_id c = av_current (acct view s)"
  shows "told (fst (legacy_RevokeAgainst (api_client sdk) c i s)) = told (fst (store_Revoke i (store_of (acct view s))))"
    "store_of (acct view (snd (legacy_RevokeAgainst (api_client sdk) c i s))) = snd (store_Revoke i (store_of (acct view s)))"
    "sound_account (acct view (snd (legacy_RevokeAgainst (api_client sdk) c i s)))"
proof -
  let ?a = "acct view s"
  have rest: "length (filter (\<lambda>c. cred_id c \<noteq> i) (so_credentials (store_of ?a))) = length (so_credentials (store_of ?a)) \<longleftrightarrow>
      find_key ?a i = None"
    using seen_ids [OF sound] unfolding filter_length_eq find_key_None by (metis (no_types, lifting) image_iff)
  have same: "filter (\<lambda>c. cred_id c \<noteq> i) (so_credentials (store_of ?a)) = so_credentials (store_of ?a)" if "find_key ?a i = None"
    using that rest by (simp add: filter_length_eq filter_id_conv)
  have "told (fst (legacy_RevokeAgainst (api_client sdk) c i s)) = told (fst (store_Revoke i (store_of ?a))) \<and>
      store_of (acct view (snd (legacy_RevokeAgainst (api_client sdk) c i s))) = snd (store_Revoke i (store_of ?a)) \<and>
      sound_account (acct view (snd (legacy_RevokeAgainst (api_client sdk) c i s)))"
  proof (cases "i = av_current ?a")
    case True
    then show ?thesis
      using id sound store_current_id [OF sound]
      by (simp add: legacy_RevokeAgainst_def store_Revoke_def store_RevokeAgainst_def)
  next
    case False
    then show ?thesis
      using id sound store_current_id [OF sound] rest same without_key_store [OF sound False]
      by (cases "find_key ?a i")
        (simp_all add: legacy_RevokeAgainst_def store_Revoke_def store_RevokeAgainst_def Let_def split_beta
          write_documented [OF doc] told_def)
  qed
  then show "told (fst (legacy_RevokeAgainst (api_client sdk) c i s)) = told (fst (store_Revoke i (store_of ?a)))"
    "store_of (acct view (snd (legacy_RevokeAgainst (api_client sdk) c i s))) = snd (store_Revoke i (store_of ?a))"
    "sound_account (acct view (snd (legacy_RevokeAgainst (api_client sdk) c i s)))"
    by blast+
qed

lemma revoke_documented:
  assumes reads: "documented_reads sdk view" and writes: "documented_writes sdk view"
    and sound: "sound_account (acct view s)"
  shows "told (fst (legacy_Revoke (api_client sdk) i s)) = told (fst (store_Revoke i (store_of (acct view s))))"
    "store_of (acct view (snd (legacy_Revoke (api_client sdk) i s))) = snd (store_Revoke i (store_of (acct view s)))"
    "sound_account (acct view (snd (legacy_Revoke (api_client sdk) i s)))"
proof -
  obtain k where k: "find_key (acct view s) (av_current (acct view s)) = Some k"
    "k \<in> set (av_keys (acct view s))" "ac_id k = av_current (acct view s)"
    using sound by (rule current_found)
  let ?s1 = "snd (cl_current (api_client sdk) s)"
  have s1: "acct view ?s1 = acct view s" by (rule client_reads_keep [OF reads])
  have "fst (cl_current (api_client sdk) s) = Inr (read_key k)"
    using k by (simp add: client_reads [OF reads] read_key_toDomain [OF sound])
  then have "legacy_Revoke (api_client sdk) i s = legacy_RevokeAgainst (api_client sdk) (read_key k) i ?s1"
    by (simp add: legacy_Revoke_def Let_def split_beta)
  moreover have id: "cred_id (read_key k) = av_current (acct view s)"
    using k read_key_simps [OF sound k(2)] by simp
  moreover note revoke_against_documented [OF writes, where s = ?s1, unfolded s1, OF sound id]
  ultimately show "told (fst (legacy_Revoke (api_client sdk) i s)) = told (fst (store_Revoke i (store_of (acct view s))))"
    "store_of (acct view (snd (legacy_Revoke (api_client sdk) i s))) = snd (store_Revoke i (store_of (acct view s)))"
    "sound_account (acct view (snd (legacy_Revoke (api_client sdk) i s)))"
    by simp_all
qed

lemma set_first_distinct:
  "distinct (map cred_id cs) \<Longrightarrow>
   set_first i ps cs =
     (if i \<in> cred_id ` set cs
      then Some (map (\<lambda>c. if cred_id c = i then c\<lparr>cred_allowed_ips := ps\<rparr> else c) cs) else None)"
proof (induction cs)
  case (Cons c cs)
  show ?case
  proof (cases "cred_id c = i")
    case True
    then have "\<forall>d \<in> set cs. cred_id d \<noteq> i" using Cons.prems by (auto simp: image_iff)
    then have "map (\<lambda>c. if cred_id c = i then c\<lparr>cred_allowed_ips := ps\<rparr> else c) cs = cs"
      by (intro map_idI) simp
    with True show ?thesis by simp
  qed (use Cons in auto)
qed simp

definition blocks_at :: "int \<Rightarrow> string list \<Rightarrow> api_credential \<Rightarrow> api_credential" where
  "blocks_at i l k = (if ac_id k = i then k\<lparr>ac_allowed_ips := l\<rparr> else k)"

lemma blocks_at_simps [simp]:
  "ac_id (blocks_at i l k) = ac_id k" "ac_application_id (blocks_at i l k) = ac_application_id k"
  by (simp_all add: blocks_at_def)

lemma with_blocks_eq: "with_blocks i l a = a\<lparr>av_keys := map (blocks_at i l) (av_keys a)\<rparr>"
  by (simp add: with_blocks_def blocks_at_def cong: map_cong)

lemma seen_blocks_at:
  assumes "sound_account a" "k \<in> set (av_keys a)" "parse_allowed l = Inr ps"
  shows "seen_key a (blocks_at i l k) =
           (if cred_id (seen_key a k) = i then (seen_key a k)\<lparr>cred_allowed_ips := ps\<rparr> else seen_key a k)"
proof -
  obtain qs where "parse_allowed (ac_allowed_ips k) = Inr qs" using assms by (auto simp: sound_account_def)
  then show ?thesis
    using assms(3) seen_key_simps(1) [OF assms(1,2)]
    by (simp add: blocks_at_def seen_key_def read_key_def credential_toDomain_def)
qed

lemma find_map_same: "(\<And>x. P (f x) = P x) \<Longrightarrow> find P (map f xs) = map_option f (find P xs)"
  by (induction xs) auto

lemma with_blocks_store:
  assumes sound: "sound_account a" and ps: "parse_allowed l = Inr ps"
  shows "store_of (with_blocks i l a) =
           (store_of a)\<lparr>so_credentials := map (\<lambda>c. if cred_id c = i then c\<lparr>cred_allowed_ips := ps\<rparr> else c)
                           (so_credentials (store_of a)),
                        so_current := (if i = cred_id (so_current (store_of a))
                           then (so_current (store_of a))\<lparr>cred_allowed_ips := ps\<rparr> else so_current (store_of a))\<rparr>"
    "sound_account (with_blocks i l a)"
proof -
  have seen: "seen_key (with_blocks i l a) = seen_key a"
    by (rule seen_key_same_apps) (simp_all add: with_blocks_eq)
  have other: "av_current (with_blocks i l a) = av_current a" "av_apps (with_blocks i l a) = av_apps a"
    "av_keys (with_blocks i l a) = map (blocks_at i l) (av_keys a)"
    by (simp_all add: with_blocks_eq)
  obtain k where k: "find_key a (av_current a) = Some k" "k \<in> set (av_keys a)" using sound by (rule current_found)
  then have "find_key (with_blocks i l a) (av_current a) = Some (blocks_at i l k)"
    by (simp add: find_key_def with_blocks_eq find_map_same)
  then have "so_current (store_of (with_blocks i l a)) = seen_key a (blocks_at i l k)"
    by (simp add: store_of_def seen other)
  moreover have "so_current (store_of a) = seen_key a k" using k by (simp add: store_of_def)
  moreover have "map (seen_key a) (map (blocks_at i l) (av_keys a)) =
      map (\<lambda>c. if cred_id c = i then c\<lparr>cred_allowed_ips := ps\<rparr> else c) (map (seen_key a) (av_keys a))"
    using seen_blocks_at [OF sound _ ps, of _ i] by simp
  ultimately show "store_of (with_blocks i l a) =
      (store_of a)\<lparr>so_credentials := map (\<lambda>c. if cred_id c = i then c\<lparr>cred_allowed_ips := ps\<rparr> else c)
                      (so_credentials (store_of a)),
                   so_current := (if i = cred_id (so_current (store_of a))
                      then (so_current (store_of a))\<lparr>cred_allowed_ips := ps\<rparr> else so_current (store_of a))\<rparr>"
    using seen_blocks_at [OF sound k(2) ps, of i]
    by (intro store.equality) (auto simp: store_of_def seen other)
  show "sound_account (with_blocks i l a)"
    using sound ps by (auto simp: sound_account_def with_blocks_eq comp_def) (auto simp: blocks_at_def)
qed

lemma set_addresses_documented:
  assumes writes: "documented_writes sdk view" and sound: "sound_account (acct view s)"
    and valid: "list_all valid_prefix ps"
  shows "told (fst (legacy_SetAddresses (api_client sdk) i ps s)) = told (fst (store_SetAddresses i ps (store_of (acct view s))))"
    "store_of (acct view (snd (legacy_SetAddresses (api_client sdk) i ps s))) =
       snd (store_SetAddresses i ps (store_of (acct view s)))"
    "sound_account (acct view (snd (legacy_SetAddresses (api_client sdk) i ps s)))"
proof -
  let ?a = "acct view s"
  note ps = parse_allowed_strings [OF valid]
  have "map cred_id (so_credentials (store_of ?a)) = map ac_id (av_keys ?a)"
    using seen_key_simps [OF sound] by (simp add: store_of_def)
  then have "distinct (map cred_id (so_credentials (store_of ?a)))" using sound by (simp add: sound_account_def)
  note first = set_first_distinct [OF this, of i ps]
  have missing: "i \<in> cred_id ` set (so_credentials (store_of ?a)) \<longleftrightarrow> find_key ?a i \<noteq> None"
    by (auto simp: seen_ids [OF sound] find_key_None)
  show "told (fst (legacy_SetAddresses (api_client sdk) i ps s)) = told (fst (store_SetAddresses i ps (store_of ?a)))"
    "store_of (acct view (snd (legacy_SetAddresses (api_client sdk) i ps s))) = snd (store_SetAddresses i ps (store_of ?a))"
    "sound_account (acct view (snd (legacy_SetAddresses (api_client sdk) i ps s)))"
    using sound with_blocks_store [OF sound ps, of i]
    by (simp_all add: legacy_SetAddresses_def store_SetAddresses_def Let_def split_beta first missing
        write_documented [OF writes] told_def)
qed

lemma find_app_other: "i \<noteq> j \<Longrightarrow> find_app (filter (\<lambda>x. aa_id x \<noteq> i) as) j = find_app as j"
  by (induction as) (auto simp: find_app_def)

lemma find_app_None: "find_app as i = None \<longleftrightarrow> (\<forall>x \<in> set as. aa_id x \<noteq> i)"
  by (auto simp: find_app_def find_None_iff)

lemma toDomain_id [simp]: "app_id (application_toDomain x) = aa_id x"
  by (simp add: application_toDomain_def)

lemma without_app_store:
  assumes sound: "sound_account a" and free: "\<forall>k \<in> set (av_keys a). ac_application_id k \<noteq> i"
  shows "store_of (without_app i a) =
           (store_of a)\<lparr>so_applications := filter (\<lambda>x. app_id x \<noteq> i) (so_applications (store_of a))\<rparr>"
    "sound_account (without_app i a)"
proof -
  have other: "av_current (without_app i a) = av_current a" "av_keys (without_app i a) = av_keys a"
    "av_apps (without_app i a) = filter (\<lambda>x. aa_id x \<noteq> i) (av_apps a)"
    "av_elsewhere (without_app i a) = av_elsewhere a"
    by (simp_all add: without_app_def)
  have seen: "seen_key (without_app i a) k = seen_key a k" if "k \<in> set (av_keys a)" for k
    using free that find_app_other [of i "ac_application_id k" "av_apps a"]
    by (auto simp: seen_key_def seen_app_def other split: option.split)
  obtain k where k: "find_key a (av_current a) = Some k" "k \<in> set (av_keys a)" using sound by (rule current_found)
  then have "find_key (without_app i a) (av_current a) = Some k" by (simp add: find_key_def other)
  with k show "store_of (without_app i a) =
      (store_of a)\<lparr>so_applications := filter (\<lambda>x. app_id x \<noteq> i) (so_applications (store_of a))\<rparr>"
    by (simp add: store_of_def seen other filter_map comp_def)
  show "sound_account (without_app i a)"
    using sound by (simp add: sound_account_def other distinct_map_filter)
qed

lemma delete_against_documented:
  assumes writes: "documented_writes sdk view" and sound: "sound_account (acct view s)"
    and listed: "\<And>k. k \<in> set (av_keys (acct view s)) \<Longrightarrow> ac_application_id k = i \<Longrightarrow>
      list_ex (\<lambda>c. app_id (cred_application c) = i) cs"
  shows "told (fst (legacy_DeleteApplicationAgainst (api_client sdk) cs i s)) =
        told (fst (store_DeleteApplicationAgainst cs i (store_of (acct view s))))"
    "store_of (acct view (snd (legacy_DeleteApplicationAgainst (api_client sdk) cs i s))) =
        snd (store_DeleteApplicationAgainst cs i (store_of (acct view s)))"
    "sound_account (acct view (snd (legacy_DeleteApplicationAgainst (api_client sdk) cs i s)))"
proof -
  let ?a = "acct view s"
  have "told (fst (legacy_DeleteApplicationAgainst (api_client sdk) cs i s)) =
        told (fst (store_DeleteApplicationAgainst cs i (store_of ?a))) \<and>
      store_of (acct view (snd (legacy_DeleteApplicationAgainst (api_client sdk) cs i s))) =
        snd (store_DeleteApplicationAgainst cs i (store_of ?a)) \<and>
      sound_account (acct view (snd (legacy_DeleteApplicationAgainst (api_client sdk) cs i s)))"
  proof (cases "list_ex (\<lambda>c. app_id (cred_application c) = i) cs")
    case True
    then show ?thesis
      using sound by (simp add: legacy_DeleteApplicationAgainst_def store_DeleteApplicationAgainst_def)
  next
    case False
    then have free: "\<forall>k \<in> set (av_keys ?a). ac_application_id k \<noteq> i" using listed by blast
    note deleted = write_documented(5,6) [OF writes free]
    have "app_id ` set (so_applications (store_of ?a)) = aa_id ` set (av_apps ?a)"
      by (auto simp: store_of_def image_iff)
    then have rest: "length (filter (\<lambda>x. app_id x \<noteq> i) (so_applications (store_of ?a))) =
        length (so_applications (store_of ?a)) \<longleftrightarrow> find_app (av_apps ?a) i = None"
      unfolding filter_length_eq find_app_None by (metis (no_types, lifting) image_iff)
    then have "find_app (av_apps ?a) i = None \<Longrightarrow>
        filter (\<lambda>x. app_id x \<noteq> i) (so_applications (store_of ?a)) = so_applications (store_of ?a)"
      by (simp add: filter_length_eq filter_id_conv)
    then show ?thesis
      using False deleted rest without_app_store [OF sound free] sound
      by (simp add: legacy_DeleteApplicationAgainst_def store_DeleteApplicationAgainst_def Let_def split_beta told_def)
  qed
  then show "told (fst (legacy_DeleteApplicationAgainst (api_client sdk) cs i s)) =
        told (fst (store_DeleteApplicationAgainst cs i (store_of (acct view s))))"
    "store_of (acct view (snd (legacy_DeleteApplicationAgainst (api_client sdk) cs i s))) =
        snd (store_DeleteApplicationAgainst cs i (store_of (acct view s)))"
    "sound_account (acct view (snd (legacy_DeleteApplicationAgainst (api_client sdk) cs i s)))"
    by simp_all
qed

lemma delete_application_documented:
  assumes reads: "documented_reads sdk view" and writes: "documented_writes sdk view"
    and sound: "sound_account (acct view s)" and fair: "fair_schedule sched"
  shows "told (fst (legacy_DeleteApplication sched (api_client sdk) i s)) =
           told (fst (store_DeleteApplication i (store_of (acct view s))))"
    "store_of (acct view (snd (legacy_DeleteApplication sched (api_client sdk) i s))) =
       snd (store_DeleteApplication i (store_of (acct view s)))"
    "sound_account (acct view (snd (legacy_DeleteApplication sched (api_client sdk) i s)))"
proof -
  let ?a = "acct view s" and ?s1 = "snd (legacy_List sched (api_client sdk) [] s)"
  let ?cs = "map (seen_key ?a) (av_keys ?a)"
  note listing = list_documented [OF reads sound fair]
  have "legacy_DeleteApplication sched (api_client sdk) i s = legacy_DeleteApplicationAgainst (api_client sdk) ?cs i ?s1"
    using listing(1) by (simp add: legacy_DeleteApplication_def Let_def split_beta store_List_def store_of_def)
  moreover have "store_DeleteApplication i (store_of ?a) = store_DeleteApplicationAgainst ?cs i (store_of ?a)"
    by (simp add: store_DeleteApplication_def store_List_def) (simp add: store_of_def)
  moreover have "list_ex (\<lambda>c. app_id (cred_application c) = i) ?cs"
    if "k \<in> set (av_keys ?a)" "ac_application_id k = i" for k
    using that by (auto simp: list_ex_iff seen_key_simps [OF sound])
  note delete_against_documented [OF writes, where s = ?s1, unfolded listing(2), OF sound this]
  ultimately show "told (fst (legacy_DeleteApplication sched (api_client sdk) i s)) =
           told (fst (store_DeleteApplication i (store_of (acct view s))))"
    "store_of (acct view (snd (legacy_DeleteApplication sched (api_client sdk) i s))) =
       snd (store_DeleteApplication i (store_of (acct view s)))"
    "sound_account (acct view (snd (legacy_DeleteApplication sched (api_client sdk) i s)))"
    by simp_all
qed

section \<open>The provider implements the store\<close>

text \<open>
  C7: Where the API answers as documented, the provider reads an account the way the in-memory
  store does: its listing, a single key, the key in use and the applications are those of the
  store the account stands for, applications resolved and a missing key told as not found,
  whatever the order of the workers, and reading changes nothing of the account.
\<close>

theorem legacy_reads_as_store:
  assumes "documented_reads sdk view" "sound_account (view (net_world s))" "fair_schedule sched"
    and "pr = legacy_provider sched (api_client sdk)" "st = store_of (view (net_world s))"
  shows "fst (pr_list pr [] s) = fst (store_List [] st) \<and>
         fst (pr_current pr s) = fst (store_Current st) \<and>
         fst (pr_applications pr s) = fst (store_Applications st) \<and>
         told_of (fst (pr_get pr i s)) = told_of (fst (store_Get i st)) \<and>
         view (net_world (snd (pr_list pr [] s))) = view (net_world s) \<and>
         view (net_world (snd (pr_current pr s))) = view (net_world s) \<and>
         view (net_world (snd (pr_applications pr s))) = view (net_world s) \<and>
         view (net_world (snd (pr_get pr i s))) = view (net_world s)"
  using list_documented [OF assms(1-3)] current_documented [OF assms(1-3)]
    applications_documented [OF assms(1-3)] get_documented [OF assms(1-3), of i]
  by (simp add: assms(4,5) legacy_provider_def)


section \<open>An API that answers as documented\<close>

text \<open>A world that is the account itself, for the witnesses.\<close>

definition account_get :: "string \<Rightarrow> api_view \<Rightarrow> err + reply" where
  "account_get p a =
     (if p = ''/auth/currentCredential'' then answer_or 403 ReplyCredential (find_key a (av_current a))
      else if p = ''/me/api/credential'' then Inr (ReplyIDs (map ac_id (av_keys a)))
      else if p = ''/me/api/application'' then Inr (ReplyIDs (map aa_id (av_apps a)))
      else case find (\<lambda>k. p = CredentialPath (ac_id k)) (av_keys a) of
          Some k \<Rightarrow> Inr (ReplyCredential k)
        | None \<Rightarrow> (case find (\<lambda>k. p = CredentialPath (ac_id k) @ ''/application'') (av_keys a) of
            Some k \<Rightarrow> answer_or 404 ReplyApplication (find_app (av_apps a @ av_elsewhere a) (ac_application_id k))
          | None \<Rightarrow> answer_or 404 ReplyApplication (find (\<lambda>x. p = ApplicationPath (aa_id x)) (av_apps a))))"

definition account_write :: "string \<Rightarrow> string \<Rightarrow> req_body \<Rightarrow> (api_view, err + reply) op" where
  "account_write m p b a =
     (case find (\<lambda>k. p = CredentialPath (ac_id k)) (av_keys a) of
        Some k \<Rightarrow>
          (Inr ReplyEmpty,
           if m = ''DELETE'' then without_key (ac_id k) a
           else with_blocks (ac_id k) (case b of AllowedIPs (Some l) \<Rightarrow> l | _ \<Rightarrow> []) a)
      | None \<Rightarrow> (case find (\<lambda>x. p = ApplicationPath (aa_id x)) (av_apps a) of
          Some x \<Rightarrow> (Inr ReplyEmpty, without_app (aa_id x) a)
        | None \<Rightarrow> (Inl (ApiError 404), a)))"

definition account_sdk :: "api_view sdk" where
  "account_sdk =
     \<lparr>sdk_call = (\<lambda>r a. if req_method r = ''GET'' then (account_get (req_path r) a, a)
                       else account_write (req_method r) (req_path r) (req_body r) a),
      sdk_pause = (\<lambda>_ a. (False, a)), sdk_ctx_ended = (\<lambda>_. False)\<rparr>"

lemma account_paths [simp]:
  "(CredentialPath i @ ''/application'' = CredentialPath j @ ''/application'') = (i = j)"
  "CredentialPath i \<noteq> CredentialPath j @ ''/application''"
  "CredentialPath j @ ''/application'' \<noteq> CredentialPath i"
  "CredentialPath i @ q \<noteq> ApplicationPath j" "ApplicationPath j \<noteq> CredentialPath i @ q"
  "CredentialPath i @ q \<noteq> ''/auth/currentCredential''" "CredentialPath i @ q \<noteq> ''/me/api/credential''"
  "CredentialPath i @ q \<noteq> ''/me/api/application''" "ApplicationPath i \<noteq> ''/auth/currentCredential''"
  "ApplicationPath i \<noteq> ''/me/api/credential''" "ApplicationPath i \<noteq> ''/me/api/application''"
proof -
  have slash: "CHR ''/'' \<notin> set (format_int i)" for i
    using nat_digits_no_char [of "CHR ''/''"] by (auto simp: format_int_def is_digit_def less_eq_char_def)
  then have "format_int i \<noteq> format_int j @ ''/application''" for i j
    by (metis Un_iff list.set_intros(1) set_append)
  then have "CredentialPath i \<noteq> CredentialPath j @ ''/application''" by (simp add: CredentialPath_def)
  then show "CredentialPath i \<noteq> CredentialPath j @ ''/application''"
    "CredentialPath j @ ''/application'' \<noteq> CredentialPath i"
    by (blast, metis)
qed (simp_all add: CredentialPath_def ApplicationPath_def)

lemmas account_paths_plain [simp] = account_paths(4-8) [where q = "[]", simplified]

lemma find_False [simp]: "find (\<lambda>_. False) xs = None"
  by (simp add: find_None_iff)

lemma find_key_alt: "find (\<lambda>k. i = ac_id k) (av_keys a) = find_key a i"
  "find (\<lambda>x. i = aa_id x) as = find_app as i"
  by (simp_all add: find_key_def find_app_def eq_commute)

lemma signed_selectors [simp]:
  "req_method (signed_get p) = ''GET''" "req_path (signed_get p) = p"
  "req_method (signed_write m p b) = m" "req_path (signed_write m p b) = p" "req_body (signed_write m p b) = b"
  by (simp_all add: signed_get_def signed_write_def del: signed_get_eq)

lemma account_call [simp]:
  "sdk_call account_sdk (signed_get p) a = (account_get p a, a)"
  "m \<noteq> ''GET'' \<Longrightarrow> sdk_call account_sdk (signed_write m p b) a = account_write m p b a"
  by (simp_all add: account_sdk_def)

lemma account_reads: "documented_reads account_sdk (\<lambda>a. a)"
  unfolding documented_reads_def
  by (intro conjI allI)
    (simp_all add: account_get_def find_key_alt app_of_key_def answer_or_def split: option.split)

lemma account_writes: "documented_writes account_sdk (\<lambda>a. a)"
  unfolding documented_writes_def
  by (intro conjI allI impI)
    (auto simp: account_write_def find_key_alt done_or_missing_def
      dest: find_key_Some find_app_id split: option.splits)

text \<open>Three keys: the one in use, one of an application that is gone, one under the application 2.\<close>

definition three_keys :: api_view where
  "three_keys =
     \<lparr>av_current = 5, av_keys = [small_key 5 StatusValidated, (small_key 6 StatusExpired)\<lparr>ac_application_id := 9\<rparr>,
        (small_key 7 StatusValidated)\<lparr>ac_application_id := 2\<rparr>],
      av_apps = map (\<lambda>i. \<lparr>aa_id = i, aa_key = ''k'', aa_name = ''n'', aa_description = [], aa_status = ''active''\<rparr>) [1, 2, 3],
      av_elsewhere = []\<rparr>"

lemma three_keys_sound: "sound_account (view (net_world \<lparr>net_world = three_keys, net_sent = []\<rparr>))" if "view = (\<lambda>a. a)"
  using that by (simp add: sound_account_def three_keys_def small_key_def)

lemma in_order: "fair_schedule (\<lambda>_ n. [0 ..< n])"
  by (auto simp: fair_schedule_def)

theorem legacy_reads_as_store_witness:
  "fst (pr_list (legacy_provider (\<lambda>_ n. [0 ..< n]) (api_client account_sdk)) [] \<lparr>net_world = three_keys, net_sent = []\<rparr>) =
     (Some (so_credentials (store_of three_keys)), None) \<and>
   map (\<lambda>c. app_deleted (cred_application c)) (so_credentials (store_of three_keys)) = [False, True, False]"
proof
  show "fst (pr_list (legacy_provider (\<lambda>_ n. [0 ..< n]) (api_client account_sdk)) [] \<lparr>net_world = three_keys, net_sent = []\<rparr>) =
     (Some (so_credentials (store_of three_keys)), None)"
    using legacy_reads_as_store [OF account_reads three_keys_sound [OF refl] in_order refl refl]
    by (simp add: store_List_def)
  show "map (\<lambda>c. app_deleted (cred_application c)) (so_credentials (store_of three_keys)) = [False, True, False]"
    by code_simp
qed


end
