(* ===== verification/Simulation.thy ===== *)
theory Simulation
  imports Refinement
begin

text \<open>
  The server over a provider that implements the store answers as the server over the store. The
  locale \<open>implements_store\<close> states what it is to implement it, over a relation between the states of
  the provider and the stores they stand for; \<open>same_server\<close> adds the rest of a server, and the
  handlers are compared in it one by one, then the way of a request through the server, then a
  sequence of requests. Both are interpreted on the server of a process whose API answers as
  documented. Retiring the key in use is left out: what a session's end does to the account is
  not something the API documents.
\<close>

section \<open>Operations that cannot be told apart\<close>

definition agree :: "('s \<Rightarrow> 't \<Rightarrow> bool) \<Rightarrow> ('s, 'a) op \<Rightarrow> ('t, 'a) op \<Rightarrow> bool" where
  "agree R f g \<longleftrightarrow> (\<forall>s t. R s t \<longrightarrow> fst (f s) = fst (g t) \<and> R (snd (f s)) (snd (g t)))"

lemma agreeI: "(\<And>s t. R s t \<Longrightarrow> fst (f s) = fst (g t) \<and> R (snd (f s)) (snd (g t))) \<Longrightarrow> agree R f g"
  by (simp add: agree_def)

lemma agreeD: "agree R f g \<Longrightarrow> R s t \<Longrightarrow> fst (f s) = fst (g t) \<and> R (snd (f s)) (snd (g t))"
  by (simp add: agree_def)

text \<open>Taking both apart at once.\<close>

lemma agreeE:
  assumes "agree R f g" "R s t"
  obtains a s' t' where "f s = (a, s')" "g t = (a, t')" "R s' t'"
  using agreeD [OF assms] by (metis prod.collapse)

lemma agree_for_each:
  assumes "\<And>x. x \<in> set xs \<Longrightarrow> agree R (f x) (g x)"
  shows "agree R (for_each f xs) (for_each g xs)"
  using assms
proof (induction xs)
  case Nil
  show ?case by (simp add: agree_def)
next
  case (Cons x xs)
  then have "agree R (f x) (g x)" "agree R (for_each f xs) (for_each g xs)" by simp_all
  then show ?case by (auto simp: agree_def Let_def split_beta)
qed

text \<open>Errors a handler cannot tell apart.\<close>

lemma told_cases:
  assumes "told e = told e'"
  obtains "e = None" "e' = None" | x y where "e = Some x" "e' = Some y" "errors_is x = errors_is y"
  using assms by (cases e; cases e') (auto simp: told_def fun_eq_iff)

lemma told_of_cases:
  assumes "told_of r = told_of r'"
  obtains x y where "r = Inl x" "r' = Inl y" "errors_is x = errors_is y" | c where "r = Inr c" "r' = Inr c"
  using assms by (cases r; cases r') (auto simp: told_of_def fun_eq_iff)

section \<open>A provider that implements the store\<close>

locale implements_store =
  fixes pr :: "'s provider" and R :: "'s \<Rightarrow> store \<Rightarrow> bool"
  assumes list_same: "R s t \<Longrightarrow> fst (pr_list pr [] s) = (Some (so_credentials t), None) \<and> R (snd (pr_list pr [] s)) t"
    and current_same: "R s t \<Longrightarrow> fst (pr_current pr s) = Inr (so_current t) \<and> R (snd (pr_current pr s)) t"
    and applications_same: "R s t \<Longrightarrow>
      fst (pr_applications pr s) = (Some (so_applications t), None) \<and> R (snd (pr_applications pr s)) t"
    and get_same: "R s t \<Longrightarrow> told_of (fst (pr_get pr i s)) = told_of (fst (store_Get i t)) \<and> R (snd (pr_get pr i s)) t"
    and revoke_same: "R s t \<Longrightarrow>
      told (fst (pr_revoke pr i s)) = told (fst (store_Revoke i t)) \<and> R (snd (pr_revoke pr i s)) (snd (store_Revoke i t))"
    and revoke_against_same: "R s t \<Longrightarrow> cred_id c = cred_id (so_current t) \<Longrightarrow>
      told (fst (pr_revoke_against pr c i s)) = told (fst (store_RevokeAgainst c i t)) \<and>
      R (snd (pr_revoke_against pr c i s)) (snd (store_RevokeAgainst c i t))"
    and set_addresses_same: "R s t \<Longrightarrow> list_all valid_prefix ps \<Longrightarrow>
      told (fst (pr_set_addresses pr i ps s)) = told (fst (store_SetAddresses i ps t)) \<and>
      R (snd (pr_set_addresses pr i ps s)) (snd (store_SetAddresses i ps t))"
    and delete_same: "R s t \<Longrightarrow>
      told (fst (pr_delete_application pr i s)) = told (fst (store_DeleteApplication i t)) \<and>
      R (snd (pr_delete_application pr i s)) (snd (store_DeleteApplication i t))"
    and delete_against_same: "R s t \<Longrightarrow>
      (\<And>c. c \<in> set (so_credentials t) \<Longrightarrow> app_id (cred_application c) = i \<Longrightarrow>
         list_ex (\<lambda>d. app_id (cred_application d) = i) cs) \<Longrightarrow>
      told (fst (pr_delete_application_against pr cs i s)) = told (fst (store_DeleteApplicationAgainst cs i t)) \<and>
      R (snd (pr_delete_application_against pr cs i s)) (snd (store_DeleteApplicationAgainst cs i t))"
    and offers_same: "pr_revocable pr = store_Revocable" "pr_deletable_application pr = store_DeletableApplication"
      "pr_addresses_editable pr = store_AddressesEditable"

text \<open>The store implements itself.\<close>

interpretation itself: implements_store store_provider "(=)"
  by unfold_locales
    (auto simp: store_provider_def store_List_def store_Current_def store_Applications_def store_Get_def
      split: option.split)

text \<open>
  And so does the legacy provider, over an API that answers as documented: a state stands for the
  store that the account behind it stands for.
\<close>

definition stands_for :: "'w sdk \<Rightarrow> ('w \<Rightarrow> api_view) \<Rightarrow> 'w net scheduler \<Rightarrow> 'w net \<Rightarrow> store \<Rightarrow> bool" where
  "stands_for sdk view sched s t \<longleftrightarrow>
     documented_reads sdk view \<and> documented_writes sdk view \<and> fair_schedule sched \<and>
     sound_account (view (net_world s)) \<and> t = store_of (view (net_world s))"

lemma stands_forD:
  assumes "stands_for sdk view sched s t"
  shows "documented_reads sdk view" "documented_writes sdk view" "fair_schedule sched"
    "sound_account (view (net_world s))" "t = store_of (view (net_world s))"
  using assms by (simp_all add: stands_for_def)

lemma stands_forI:
  assumes "stands_for sdk view sched s t"
    and "sound_account (view (net_world s'))" "store_of (view (net_world s')) = t'"
  shows "stands_for sdk view sched s' t'"
  using assms by (auto simp: stands_for_def)

interpretation documented: implements_store "legacy_provider sched (api_client sdk)" "stands_for sdk view sched"
  for sched sdk view
proof unfold_locales
  fix s t i c ps cs
  assume R: "stands_for sdk view sched s t"
  note doc = stands_forD [OF R]
  note keep = stands_forI [OF R]
  let ?pr = "legacy_provider sched (api_client sdk)"
  show "fst (pr_list ?pr [] s) = (Some (so_credentials t), None) \<and> stands_for sdk view sched (snd (pr_list ?pr [] s)) t"
    using list_documented [OF doc(1,4,3)] keep doc(4,5) by (simp add: legacy_provider_def store_List_def)
  show "fst (pr_current ?pr s) = Inr (so_current t) \<and> stands_for sdk view sched (snd (pr_current ?pr s)) t"
    using current_documented [OF doc(1,4,3)] keep doc(4,5) by (simp add: legacy_provider_def store_Current_def)
  show "fst (pr_applications ?pr s) = (Some (so_applications t), None) \<and>
      stands_for sdk view sched (snd (pr_applications ?pr s)) t"
    using applications_documented [OF doc(1,4,3)] keep doc(4,5) by (simp add: legacy_provider_def store_Applications_def)
  show "told_of (fst (pr_get ?pr i s)) = told_of (fst (store_Get i t)) \<and> stands_for sdk view sched (snd (pr_get ?pr i s)) t"
    using get_documented [OF doc(1,4,3), of i] keep doc(4,5) by (simp add: legacy_provider_def)
  show "told (fst (pr_revoke ?pr i s)) = told (fst (store_Revoke i t)) \<and>
      stands_for sdk view sched (snd (pr_revoke ?pr i s)) (snd (store_Revoke i t))"
    using revoke_documented [OF doc(1,2,4), of i] keep doc(5) by (simp add: legacy_provider_def)
  show "told (fst (pr_delete_application ?pr i s)) = told (fst (store_DeleteApplication i t)) \<and>
      stands_for sdk view sched (snd (pr_delete_application ?pr i s)) (snd (store_DeleteApplication i t))"
    using delete_application_documented [OF doc(1,2,4,3), of i] keep doc(5) by (simp add: legacy_provider_def)
  show "told (fst (pr_set_addresses ?pr i ps s)) = told (fst (store_SetAddresses i ps t)) \<and>
      stands_for sdk view sched (snd (pr_set_addresses ?pr i ps s)) (snd (store_SetAddresses i ps t))"
    if "list_all valid_prefix ps"
    using set_addresses_documented [OF doc(2,4) that, of i] keep doc(5) by (simp add: legacy_provider_def)
  show "told (fst (pr_revoke_against ?pr c i s)) = told (fst (store_RevokeAgainst c i t)) \<and>
      stands_for sdk view sched (snd (pr_revoke_against ?pr c i s)) (snd (store_RevokeAgainst c i t))"
    if "cred_id c = cred_id (so_current t)"
  proof -
    have "store_RevokeAgainst c i t = store_Revoke i t"
      using that by (simp add: store_Revoke_def store_RevokeAgainst_def)
    moreover have "cred_id c = av_current (view (net_world s))"
      using that doc(5) store_current_id [OF doc(4)] by simp
    ultimately show ?thesis
      using revoke_against_documented [OF doc(2,4), of c i] keep doc(5) by (simp add: legacy_provider_def)
  qed
  show "told (fst (pr_delete_application_against ?pr cs i s)) = told (fst (store_DeleteApplicationAgainst cs i t)) \<and>
      stands_for sdk view sched (snd (pr_delete_application_against ?pr cs i s)) (snd (store_DeleteApplicationAgainst cs i t))"
    if listed: "\<And>c. c \<in> set (so_credentials t) \<Longrightarrow> app_id (cred_application c) = i \<Longrightarrow>
         list_ex (\<lambda>d. app_id (cred_application d) = i) cs"
  proof -
    have "list_ex (\<lambda>d. app_id (cred_application d) = i) cs"
      if "k \<in> set (av_keys (view (net_world s)))" "ac_application_id k = i" for k
      using that listed [of "seen_key (view (net_world s)) k"] doc(5)
      by (simp add: store_of_def seen_key_simps [OF doc(4) that(1)])
    from delete_against_documented [OF doc(2,4) this] keep doc(5)
    show ?thesis by (simp add: legacy_provider_def)
  qed
qed (auto simp: legacy_provider_def fun_eq_iff store_Revocable_def legacy_Revocable_def
    store_DeletableApplication_def legacy_DeletableApplication_def store_AddressesEditable_def legacy_AddressesEditable_def)

section \<open>A server over it\<close>

locale same_server = implements_store "sv_provider srv" R
  for srv :: "'s server" and R :: "'s \<Rightarrow> store \<Rightarrow> bool" +
  fixes srv' :: "store server"
  assumes store_server: "sv_provider srv' = store_provider"
    and lookup_same: "agree R (rs_address (sv_resolver srv)) (rs_address (sv_resolver srv'))"
      "rs_enabled (sv_resolver srv) = rs_enabled (sv_resolver srv')"
    and catalog_same: "R s t \<Longrightarrow> sv_catalog srv s = sv_catalog srv' t"
    and fields_same: "sv_token srv = sv_token srv'" "sv_csrf srv = sv_csrf srv'"
      "sv_endpoint srv = sv_endpoint srv'" "sv_version srv = sv_version srv'"
      "sv_management_key_url srv = sv_management_key_url srv'" "sv_address_key_url srv = sv_address_key_url srv'"
      "sv_secure_cookie srv = sv_secure_cookie srv'"
begin

lemma listing:
  assumes "R s t"
  obtains s' where "list_credentials srv s = ((Some (so_credentials t), 0, None), s')" "R s' t"
    "list_credentials srv' t = ((Some (so_credentials t), 0, None), t)"
proof
  show "list_credentials srv s = ((Some (so_credentials t), 0, None), snd (list_credentials srv s))"
    using list_same [OF assms]
    by (simp add: list_credentials_def Let_def split_beta list_result_def prod_eq_iff)
  show "R (snd (list_credentials srv s)) t"
    using list_same [OF assms] by (simp add: list_credentials_def Let_def split_beta)
  show "list_credentials srv' t = ((Some (so_credentials t), 0, None), t)"
    by (simp add: list_credentials_def store_server store_provider_def store_List_def list_result_def)
qed

lemma current:
  assumes "R s t"
  obtains s' where "pr_current (sv_provider srv) s = (Inr (so_current t), s')" "R s' t"
    "pr_current (sv_provider srv') t = (Inr (so_current t), t)"
proof
  show "pr_current (sv_provider srv) s = (Inr (so_current t), snd (pr_current (sv_provider srv) s))"
    "R (snd (pr_current (sv_provider srv) s)) t"
    using current_same [OF assms] by (simp_all add: prod_eq_iff)
  show "pr_current (sv_provider srv') t = (Inr (so_current t), t)"
    by (simp add: store_server store_provider_def store_Current_def)
qed

lemma listed_applications:
  assumes "R s t"
  obtains s' where "pr_applications (sv_provider srv) s = ((Some (so_applications t), None), s')" "R s' t"
    "pr_applications (sv_provider srv') t = ((Some (so_applications t), None), t)"
proof
  show "pr_applications (sv_provider srv) s = ((Some (so_applications t), None), snd (pr_applications (sv_provider srv) s))"
    "R (snd (pr_applications (sv_provider srv) s)) t"
    using applications_same [OF assms] by (simp_all add: prod_eq_iff)
  show "pr_applications (sv_provider srv') t = ((Some (so_applications t), None), t)"
    by (simp add: store_server store_provider_def store_Applications_def)
qed

lemma offers:
  "revocationOffer srv = revocationOffer srv'" "deletionOffer srv = deletionOffer srv'"
  "addressOffer srv = addressOffer srv'"
proof -
  have "pr_revocable (sv_provider srv) = pr_revocable (sv_provider srv')"
    "pr_deletable_application (sv_provider srv) = pr_deletable_application (sv_provider srv')"
    "pr_addresses_editable (sv_provider srv) = pr_addresses_editable (sv_provider srv')"
    by (simp_all add: offers_same store_server store_provider_def)
  then show "revocationOffer srv = revocationOffer srv'" "deletionOffer srv = deletionOffer srv'"
    "addressOffer srv = addressOffer srv'"
    unfolding fun_eq_iff revocationOffer_def deletionOffer_def addressOffer_def lookup_same(2) by presburger+
qed

lemma inventory_agrees: "agree R (inventory srv now) (inventory srv' now)"
proof (rule agreeI)
  fix s t assume "R s t"
  then obtain s1 where s1: "pr_current (sv_provider srv) s = (Inr (so_current t), s1)" "R s1 t"
    "pr_current (sv_provider srv') t = (Inr (so_current t), t)" by (rule current)
  from s1(2) obtain s2 where "list_credentials srv s1 = ((Some (so_credentials t), 0, None), s2)" "R s2 t"
    "list_credentials srv' t = ((Some (so_credentials t), 0, None), t)" by (rule listing)
  moreover have "view_of srv = view_of srv'" by (simp add: fun_eq_iff view_of_def offers)
  ultimately show "fst (inventory srv now s) = fst (inventory srv' now t) \<and> R (snd (inventory srv now s)) (snd (inventory srv' now t))"
    using s1 by (simp add: inventory_def fields_same Let_def)
qed

lemma applications_agrees: "agree R (applications srv) (applications srv')"
proof (rule agreeI)
  fix s t assume "R s t"
  then obtain s1 where s1: "pr_current (sv_provider srv) s = (Inr (so_current t), s1)" "R s1 t"
    "pr_current (sv_provider srv') t = (Inr (so_current t), t)" by (rule current)
  from s1(2) obtain s2 where s2: "pr_applications (sv_provider srv) s1 = ((Some (so_applications t), None), s2)" "R s2 t"
    "pr_applications (sv_provider srv') t = ((Some (so_applications t), None), t)" by (rule listed_applications)
  from s2(2) obtain s3 where s3: "list_credentials srv s2 = ((Some (so_credentials t), 0, None), s3)" "R s3 t"
    "list_credentials srv' t = ((Some (so_credentials t), 0, None), t)" by (rule listing)
  from s3(2) obtain s4 where s4: "pr_current (sv_provider srv) s3 = (Inr (so_current t), s4)" "R s4 t"
    by (rule current)
  show "fst (applications srv s) = fst (applications srv' t) \<and> R (snd (applications srv s)) (snd (applications srv' t))"
    using s1 s2 s3 s4 by (simp add: applications_def offers Let_def)
qed

lemma revoke_agrees: "agree R (revoke srv path_id) (revoke srv' path_id)"
proof (rule agreeI)
  fix s t assume R: "R s t"
  show "fst (revoke srv path_id s) = fst (revoke srv' path_id t) \<and> R (snd (revoke srv path_id s)) (snd (revoke srv' path_id t))"
  proof (cases "parse_int64 path_id")
    case (Some i)
    from revoke_same [OF R, of i] show ?thesis
      by (auto simp: revoke_def Some Let_def split_beta store_server store_provider_def failRevocation_def
          elim!: told_cases)
  qed (simp add: revoke_def R)
qed

lemma deleteApplication_agrees: "agree R (deleteApplication srv path_id) (deleteApplication srv' path_id)"
proof (rule agreeI)
  fix s t assume R: "R s t"
  show "fst (deleteApplication srv path_id s) = fst (deleteApplication srv' path_id t) \<and>
    R (snd (deleteApplication srv path_id s)) (snd (deleteApplication srv' path_id t))"
  proof (cases "parse_int64 path_id")
    case (Some i)
    from delete_same [OF R, of i] show ?thesis
      by (auto simp: deleteApplication_def Some Let_def split_beta store_server store_provider_def failApplicationDeletion_def
          elim!: told_cases)
  qed (simp add: deleteApplication_def R)
qed

text \<open>The sweep: the key in use is the one identified before it, throughout.\<close>

definition "during_sweep n s t \<longleftrightarrow> R s t \<and> cred_id (so_current t) = n"

lemma sweep_turn_agrees:
  "agree (during_sweep (cred_id own)) (sweep_turn srv (Some own) c) (sweep_turn srv' (Some own) c)"
proof (rule agreeI)
  fix s t assume "during_sweep (cred_id own) s t"
  then have R: "R s t" "cred_id own = cred_id (so_current t)" by (simp_all add: during_sweep_def)
  have kept: "cred_id (so_current (snd (store_RevokeAgainst own i t))) = cred_id (so_current t)" for i
    by (simp add: store_RevokeAgainst_def Let_def)
  from revoke_against_same [OF R, of "cred_id c"] R kept
  show "fst (sweep_turn srv (Some own) c s) = fst (sweep_turn srv' (Some own) c t) \<and>
      during_sweep (cred_id own) (snd (sweep_turn srv (Some own) c s)) (snd (sweep_turn srv' (Some own) c t))"
    by (auto simp: sweep_turn_def offers revokeOne_def store_server store_provider_def Let_def split_beta
        during_sweep_def revocationCode_def elim!: told_cases)
qed

lemma revokeInactive_agrees: "agree R (revokeInactive srv) (revokeInactive srv')"
proof (rule agreeI)
  fix s t assume "R s t"
  then obtain s1 where s1: "pr_current (sv_provider srv) s = (Inr (so_current t), s1)" "R s1 t"
    "pr_current (sv_provider srv') t = (Inr (so_current t), t)" by (rule current)
  from s1(2) obtain s2 where s2: "list_credentials srv s1 = ((Some (so_credentials t), 0, None), s2)" "R s2 t"
    "list_credentials srv' t = ((Some (so_credentials t), 0, None), t)" by (rule listing)
  let ?turns = "\<lambda>srv. for_each (sweep_turn srv (Some (so_current t))) (so_credentials t)"
  have "agree (during_sweep (cred_id (so_current t))) (?turns srv) (for_each (sweep_turn srv' (Some (so_current t))) (so_credentials t))"
    by (rule agree_for_each) (rule sweep_turn_agrees)
  from agreeD [OF this, of s2 t] s2(2)
  have "fst (?turns srv s2) = fst (for_each (sweep_turn srv' (Some (so_current t))) (so_credentials t) t) \<and>
      R (snd (?turns srv s2)) (snd (for_each (sweep_turn srv' (Some (so_current t))) (so_credentials t) t))"
    by (simp add: during_sweep_def)
  then show "fst (revokeInactive srv s) = fst (revokeInactive srv' t) \<and> R (snd (revokeInactive srv s)) (snd (revokeInactive srv' t))"
    using s1 s2 by (simp add: revokeInactive_def Let_def split_beta)
qed

text \<open>The bulk deletion: the keys stay those of the listing, throughout.\<close>

definition "during_deletion cs s t \<longleftrightarrow> R s t \<and> so_credentials t = cs"

lemma keyless_turn_agrees:
  "agree (during_deletion cs) (keyless_turn srv own cs a) (keyless_turn srv' own cs a)"
proof (rule agreeI)
  fix s t assume "during_deletion cs s t"
  then have R: "R s t" "so_credentials t = cs" by (simp_all add: during_deletion_def)
  have same: "told (fst (pr_delete_application_against (sv_provider srv) cs i s)) =
        told (fst (store_DeleteApplicationAgainst cs i t)) \<and>
      R (snd (pr_delete_application_against (sv_provider srv) cs i s)) (snd (store_DeleteApplicationAgainst cs i t))" for i
    by (rule delete_against_same [OF R(1)]) (use R(2) in \<open>auto simp: list_ex_iff\<close>)
  have kept: "so_credentials (snd (store_DeleteApplicationAgainst cs i t)) = so_credentials t" for i
    by (simp add: store_DeleteApplicationAgainst_def Let_def)
  from same [of "app_id a"] R kept
  show "fst (keyless_turn srv own cs a s) = fst (keyless_turn srv' own cs a t) \<and>
      during_deletion cs (snd (keyless_turn srv own cs a s)) (snd (keyless_turn srv' own cs a t))"
    by (auto simp: keyless_turn_def offers store_server store_provider_def Let_def split_beta
        during_deletion_def applicationErrorCode_def elim!: told_cases)
qed

lemma deleteKeyless_agrees: "agree R (deleteKeylessApplications srv) (deleteKeylessApplications srv')"
proof (rule agreeI)
  fix s t assume "R s t"
  then obtain s1 where s1: "pr_applications (sv_provider srv) s = ((Some (so_applications t), None), s1)" "R s1 t"
    "pr_applications (sv_provider srv') t = ((Some (so_applications t), None), t)" by (rule listed_applications)
  from s1(2) obtain s2 where s2: "list_credentials srv s1 = ((Some (so_credentials t), 0, None), s2)" "R s2 t"
    "list_credentials srv' t = ((Some (so_credentials t), 0, None), t)" by (rule listing)
  from s2(2) obtain s3 where s3: "pr_current (sv_provider srv) s2 = (Inr (so_current t), s3)" "R s3 t"
    "pr_current (sv_provider srv') t = (Inr (so_current t), t)" by (rule current)
  let ?own = "Some (so_current t)" and ?cs = "so_credentials t" and ?as = "so_applications t"
  have "agree (during_deletion ?cs) (for_each (keyless_turn srv ?own ?cs) ?as) (for_each (keyless_turn srv' ?own ?cs) ?as)"
    by (rule agree_for_each) (rule keyless_turn_agrees)
  from agreeD [OF this, of s3 t] s3(2)
  have "fst (for_each (keyless_turn srv ?own ?cs) ?as s3) = fst (for_each (keyless_turn srv' ?own ?cs) ?as t) \<and>
      R (snd (for_each (keyless_turn srv ?own ?cs) ?as s3)) (snd (for_each (keyless_turn srv' ?own ?cs) ?as t))"
    by (simp add: during_deletion_def)
  then show "fst (deleteKeylessApplications srv s) = fst (deleteKeylessApplications srv' t) \<and>
      R (snd (deleteKeylessApplications srv s)) (snd (deleteKeylessApplications srv' t))"
    using s1 s2 s3 by (simp add: deleteKeylessApplications_def Let_def split_beta)
qed

text \<open>The addresses: what is written is in the form the API stores.\<close>

lemma check_lockout_agrees: "agree R (check_lockout srv allowed) (check_lockout srv' allowed)"
proof (rule agreeI)
  fix s t assume "R s t"
  from agreeE [OF lookup_same(1) this] obtain r s' t' where
    "rs_address (sv_resolver srv) s = (r, s')" "rs_address (sv_resolver srv') t = (r, t')" "R s' t'" .
  then show "fst (check_lockout srv allowed s) = fst (check_lockout srv' allowed t) \<and>
      R (snd (check_lockout srv allowed s)) (snd (check_lockout srv' allowed t))"
    by (simp add: check_lockout_def)
qed

lemma write_addresses_agrees:
  assumes "list_all valid_prefix allowed"
  shows "agree R (write_addresses srv apply i allowed seen) (write_addresses srv' apply i allowed seen)"
proof (rule agreeI)
  fix s t assume R: "R s t"
  from set_addresses_same [OF this assms, of i]
  show "fst (write_addresses srv apply i allowed seen s) = fst (write_addresses srv' apply i allowed seen t) \<and>
      R (snd (write_addresses srv apply i allowed seen s)) (snd (write_addresses srv' apply i allowed seen t))"
    using R by (auto simp: write_addresses_def store_server store_provider_def failAddresses_def Let_def split_beta
        elim!: told_cases)
qed

lemma change_addresses_agrees:
  assumes "list_all valid_prefix allowed"
  shows "agree R (change_addresses srv apply own target allowed) (change_addresses srv' apply own target allowed)"
proof (rule agreeI)
  fix s t assume R: "R s t"
  note writing = agreeD [OF write_addresses_agrees [OF assms]]
  from agreeE [OF check_lockout_agrees R, of allowed] obtain r s' t' where
    "check_lockout srv allowed s = (r, s')" "check_lockout srv' allowed t = (r, t')" "R s' t'" .
  then show "fst (change_addresses srv apply own target allowed s) = fst (change_addresses srv' apply own target allowed t) \<and>
      R (snd (change_addresses srv apply own target allowed s)) (snd (change_addresses srv' apply own target allowed t))"
    using R writing by (auto simp: change_addresses_def split: sum.split)
qed

lemma addresses_agrees: "agree R (addresses srv path_id body apply) (addresses srv' path_id body apply)"
proof (rule agreeI)
  fix s t assume R: "R s t"
  show "fst (addresses srv path_id body apply s) = fst (addresses srv' path_id body apply t) \<and>
      R (snd (addresses srv path_id body apply s)) (snd (addresses srv' path_id body apply t))"
  proof (cases "parse_int64 path_id")
    case (Some i)
    show ?thesis
    proof (cases "\<exists>sent allowed. body = Some sent \<and> readAddresses sent = Inr allowed")
      case True
      then obtain sent allowed where read: "body = Some sent" "readAddresses sent = Inr allowed" by blast
      have "list_all valid_prefix allowed"
        using readAddresses_stored(2) [OF read(2)] by (simp add: list_all_iff stored_form_def)
      note changing = agreeD [OF change_addresses_agrees [OF this]]
      from R obtain s1 where s1: "pr_current (sv_provider srv) s = (Inr (so_current t), s1)" "R s1 t"
        "pr_current (sv_provider srv') t = (Inr (so_current t), t)" by (rule current)
      have store: "pr_get (sv_provider srv') i t = (fst (store_Get i t), t)"
        by (simp add: store_server store_provider_def store_Get_def split: option.split)
      from get_same [OF s1(2), of i]
      have "told_of (fst (pr_get (sv_provider srv) i s1)) = told_of (fst (store_Get i t))" by (rule conjunct1)
      then show ?thesis
        by (rule told_of_cases)
          (use get_same [OF s1(2), of i] s1 store changing in
            \<open>auto simp: addresses_def Some read failAddresses_def Let_def split_beta\<close>)
    next
      case False
      then show ?thesis using R by (auto simp: addresses_def Some split: option.splits sum.splits)
    qed
  qed (simp add: addresses_def R)
qed

lemma publicAddress_agrees: "agree R (publicAddress srv) (publicAddress srv')"
proof (rule agreeI)
  fix s t assume "R s t"
  from agreeE [OF lookup_same(1) this] obtain r s' t' where
    "rs_address (sv_resolver srv) s = (r, s')" "rs_address (sv_resolver srv') t = (r, t')" "R s' t'" .
  then show "fst (publicAddress srv s) = fst (publicAddress srv' t) \<and> R (snd (publicAddress srv s)) (snd (publicAddress srv' t))"
    by (simp add: publicAddress_def)
qed

text \<open>The way of a request to its handler.\<close>

lemma served_agrees:
  assumes "agree R f g"
  shows "agree R (served wrap f) (served wrap g)"
proof (rule agreeI)
  fix s t assume "R s t"
  from agreeD [OF assms this]
  show "fst (served wrap f s) = fst (served wrap g t) \<and> R (snd (served wrap f s)) (snd (served wrap g t))"
    by (simp add: served_def Let_def split_beta)
qed

lemma catalogue_agrees: "agree R (catalogue srv) (catalogue srv')"
  by (rule agreeI) (simp add: catalogue_def catalog_same Let_def)

lemma session_same: "session srv = session srv'"
  by (simp add: session_def fields_same lookup_same(2))

lemma run_target_agrees:
  assumes "target \<noteq> ToRetire"
  shows "agree R (run_target sdk_endpoints srv now r target) (run_target sdk_endpoints srv' now r target)"
proof -
  have "agree R (\<lambda>s. (a, s)) (\<lambda>s. (a, s))" for a :: outcome by (simp add: agree_def)
  moreover have "agree R (handoff sdk_endpoints srv body) (handoff sdk_endpoints srv' body)" for body
    by (rule agreeI) (simp add: handoff_def fields_same split: option.split sum.split)
  ultimately show ?thesis
    using assms
    by (cases target) (auto simp: run_target_def session_same previewAddresses_def setAddresses_def
        intro: served_agrees inventory_agrees catalogue_agrees applications_agrees deleteApplication_agrees
          deleteKeyless_agrees revoke_agrees revokeInactive_agrees addresses_agrees publicAddress_agrees)
qed

lemma handle_agrees:
  assumes "mux_pattern r \<noteq> Some ToRetire"
  shows "agree R (handle sdk_endpoints srv now r) (handle sdk_endpoints srv' now r)"
proof (rule agreeI)
  fix s t assume R: "R s t"
  have mux: "fst (mux_serve sdk_endpoints srv now r s) = fst (mux_serve sdk_endpoints srv' now r t) \<and>
      R (snd (mux_serve sdk_endpoints srv now r s)) (snd (mux_serve sdk_endpoints srv' now r t))"
  proof (cases "mux_pattern r")
    case (Some target)
    with assms have "target \<noteq> ToRetire" by simp
    from agreeD [OF run_target_agrees [OF this] R] R show ?thesis by (simp add: mux_serve_def Some)
  qed (simp add: mux_serve_def R)
  then have "fst (guardMutations sdk_endpoints srv now r s) = fst (guardMutations sdk_endpoints srv' now r t) \<and>
      R (snd (guardMutations sdk_endpoints srv now r s)) (snd (guardMutations sdk_endpoints srv' now r t))"
    using R by (simp add: guardMutations_def fields_same)
  moreover have "tokenMatches srv = tokenMatches srv'" by (simp add: fun_eq_iff tokenMatches_def fields_same)
  moreover have "grant srv r = grant srv' r" by (simp add: grant_def fields_same)
  ultimately show "fst (handle sdk_endpoints srv now r s) = fst (handle sdk_endpoints srv' now r t) \<and>
      R (snd (handle sdk_endpoints srv now r s)) (snd (handle sdk_endpoints srv' now r t))"
    using R by (cases "hr_cookie r") (simp_all add: handle_def authenticate_def Let_def split_beta)
qed

lemma requests_agree:
  assumes "\<forall>(now, r) \<in> set rs. mux_pattern r \<noteq> Some ToRetire"
  shows "agree R (for_each (\<lambda>(now, r). handle sdk_endpoints srv now r) rs)
    (for_each (\<lambda>(now, r). handle sdk_endpoints srv' now r) rs)"
  by (rule agree_for_each) (use assms handle_agrees in \<open>auto split: prod.split\<close>)

end

section \<open>The server of a process and its mirror\<close>

text \<open>
  The same server over an account in memory, with the catalogue and the address it would be
  answered.
\<close>

definition mirror_server :: "'w surroundings \<Rightarrow> err + addr \<Rightarrow> snapshot \<Rightarrow> store server" where
  "mirror_server d found routes =
     New (su_endpoints d)
       \<lparr>opt_provider = store_provider,
        opt_resolver = (if equal_fold (su_lookup_setting d) ''off'' then Disabled
                        else \<lparr>rs_address = (\<lambda>t. (found, t)), rs_enabled = True\<rparr>),
        opt_catalog = fixedCatalog routes, opt_token = su_token d, opt_csrf = su_csrf d,
        opt_endpoint = su_endpoint d, opt_version = su_version d, opt_secure_cookie = su_secure d\<rparr>"

text \<open>Surroundings that hold still: one catalogue, and one address where the lookup is on.\<close>

definition steady :: "'w surroundings \<Rightarrow> ('w \<Rightarrow> api_view) \<Rightarrow> err + addr \<Rightarrow> snapshot \<Rightarrow> bool" where
  "steady d view found routes \<longleftrightarrow>
     su_catalog d = (\<lambda>_. routes) \<and>
     (equal_fold (su_lookup_setting d) ''off'' \<or>
        (\<forall>w. read_lookup (fst (su_lookup d w)) = found \<and> view (snd (su_lookup d w)) = view w))"

definition mirrors ::
  "'w surroundings \<Rightarrow> ('w \<Rightarrow> api_view) \<Rightarrow> err + addr \<Rightarrow> snapshot \<Rightarrow> 'w net \<Rightarrow> store \<Rightarrow> bool" where
  "mirrors d view found routes s t \<longleftrightarrow> steady d view found routes \<and> stands_for (su_sdk d) view (su_scheduler d) s t"

lemma implements_store_under:
  assumes "implements_store pr R"
  shows "implements_store pr (\<lambda>s t. P \<and> R s t)"
  by (rule implements_store.intro)
    (use assms in \<open>auto simp: implements_store.list_same implements_store.current_same
      implements_store.applications_same implements_store.get_same implements_store.revoke_same
      implements_store.revoke_against_same implements_store.set_addresses_same implements_store.delete_same
      implements_store.delete_against_same implements_store.offers_same\<close>)

interpretation mirror: same_server "live_server d" "mirrors d view found routes" "mirror_server d found routes"
  for d view found routes
proof (rule same_server.intro)
  show "implements_store (sv_provider (live_server d)) (mirrors d view found routes)"
    unfolding mirrors_def live_server_simps live_provider_def
    by (rule implements_store_under) (rule documented.implements_store_axioms)
  show "same_server_axioms (live_server d) (mirrors d view found routes) (mirror_server d found routes)"
  proof
    show "agree (mirrors d view found routes) (rs_address (sv_resolver (live_server d)))
        (rs_address (sv_resolver (mirror_server d found routes)))"
      by (rule agreeI)
        (auto simp: mirrors_def steady_def stands_for_def mirror_server_def New_def addressResolver_def Disabled_def
          Service_def Service_Address_def Let_def split_beta)
    show "mirrors d view found routes s t \<Longrightarrow>
        sv_catalog (live_server d) s = sv_catalog (mirror_server d found routes) t" for s t
      by (simp add: mirrors_def steady_def live_server_def mirror_server_def New_def fixedCatalog_def)
  qed (simp_all add: live_server_def mirror_server_def New_def addressResolver_def Disabled_def Service_def)
qed

section \<open>The whole server\<close>

text \<open>
  C5: Where the API answers as documented, the server of a process answers every sequence of requests
  as the same server over an account held in memory: the same status, code, list and finding, in
  the same order, and after each of them the account is the one the memory holds. The account stays
  sound, so the key in use is still on it: no sequence of requests loses the tool its own key but
  by its retirement, which is the one request left out.
\<close>

theorem server_as_store:
  assumes "documented_reads (su_sdk d) view" "documented_writes (su_sdk d) view" "fair_schedule (su_scheduler d)"
    and "sound_account (view (net_world s))" "steady d view found routes"
    and "\<forall>(now, r) \<in> set rs. mux_pattern r \<noteq> Some ToRetire"
    and "live = for_each (\<lambda>(now, r). live_handle d now r) rs s"
    and "stored = for_each (\<lambda>(now, r). handle (su_endpoints d) (mirror_server d found routes) now r) rs
      (store_of (view (net_world s)))"
  shows "fst live = fst stored \<and> store_of (view (net_world (snd live))) = snd stored \<and>
    sound_account (view (net_world (snd live)))"
proof -
  have "mirrors d view found routes s (store_of (view (net_world s)))"
    using assms(1-5) by (simp add: mirrors_def stands_for_def)
  from agreeD [OF mirror.requests_agree [OF assms(6)] this, of "su_endpoints d"]
  have "fst live = fst stored \<and> mirrors d view found routes (snd live) (snd stored)"
    by (simp only: assms(7,8) live_handle_def)
  then show ?thesis by (simp add: mirrors_def stands_for_def)
qed

text \<open>A process over the account of three keys; it sweeps it, restricts a key and tries to revoke its own.\<close>

definition three_keys_process :: "api_view surroundings" where
  "three_keys_process =
     \<lparr>su_sdk = account_sdk, su_endpoints = (\<lambda>_. None), su_scheduler = (\<lambda>_ n. [0 ..< n]),
      su_lookup = (\<lambda>w. (Unreachable, w)), su_lookup_setting = ''off'', su_catalog = (\<lambda>_. zero_snapshot),
      su_token = ''t'', su_csrf = ''c'', su_endpoint = ''ovh-eu'', su_version = ''1'', su_secure = False\<rparr>"

definition asked :: "string \<Rightarrow> string \<Rightarrow> string list option \<Rightarrow> time \<times> http_request" where
  "asked m path blocks =
     (0, \<lparr>hr_method = m, hr_raw_path = path, hr_query = [], hr_cookie = Some ''t'', hr_csrf = ''c'',
         hr_addresses = blocks, hr_rules = None\<rparr>)"

definition three_requests :: "(time \<times> http_request) list" where
  "three_requests =
     [asked ''POST'' ''/api/credentials/inactive/revocations'' None,
      asked ''PUT'' ''/api/credentials/7/addresses'' (Some [''192.0.2.7''] ),
      asked ''DELETE'' ''/api/credentials/5'' None]"

theorem server_as_store_witness:
  "let live = for_each (\<lambda>(now, r). live_handle three_keys_process now r) three_requests
       \<lparr>net_world = three_keys, net_sent = []\<rparr>
   in map snd (fst live) =
        [Served (Answered 200 (SweepBody \<lparr>sw_revoked = [6], sw_failed = []\<rparr>)),
         Served (Answered 200 (AddressesBody \<lparr>ad_addresses = [''192.0.2.7/32''], ad_seen_from = []\<rparr>)),
         Served (Refused 409 ''self-revocation'' [])] \<and>
      map (\<lambda>c. (cred_id c, cred_allowed_ips c)) (so_credentials (store_of (net_world (snd live)))) =
        [(5, []), (7, [Prefix (V4 0xC0000207) 32])]"
proof -
  let ?s = "\<lparr>net_world = three_keys, net_sent = []\<rparr>" and ?d = three_keys_process
  let ?mirror = "mirror_server ?d (Inl (Failure [])) zero_snapshot"
  let ?live = "for_each (\<lambda>(now, r). live_handle ?d now r) three_requests ?s"
  let ?stored = "for_each (\<lambda>(now, r). handle (su_endpoints ?d) ?mirror now r) three_requests (store_of three_keys)"
  have sdk: "su_sdk ?d = account_sdk" by (simp add: three_keys_process_def)
  have fair: "fair_schedule (su_scheduler ?d)" using in_order by (simp add: three_keys_process_def)
  have steady: "steady ?d (\<lambda>a. a) (Inl (Failure [])) zero_snapshot"
    unfolding steady_def by (intro conjI disjI1) (simp_all add: three_keys_process_def)
  have routed: "\<forall>(now, r) \<in> set three_requests. mux_pattern r \<noteq> Some ToRetire" by code_simp
  have "fst ?live = fst ?stored \<and> store_of (net_world (snd ?live)) = snd ?stored"
    using server_as_store [where view = "\<lambda>a. a", OF _ _ fair three_keys_sound [OF refl] steady routed refl refl]
      account_reads account_writes by (simp add: sdk)
  moreover have "map snd (fst ?stored) =
        [Served (Answered 200 (SweepBody \<lparr>sw_revoked = [6], sw_failed = []\<rparr>)),
         Served (Answered 200 (AddressesBody \<lparr>ad_addresses = [''192.0.2.7/32''], ad_seen_from = []\<rparr>)),
         Served (Refused 409 ''self-revocation'' [])]" by code_simp
  moreover have "map (\<lambda>c. (cred_id c, cred_allowed_ips c)) (so_credentials (snd ?stored)) =
      [(5, []), (7, [Prefix (V4 0xC0000207) 32])]" by code_simp
  ultimately show ?thesis by (simp only: Let_def)
qed

end
