(* ===== verification/Achieved.thy ===== *)
theory Achieved
  imports Simulation
begin

text \<open>
  What the bulk operations achieve: over an API that answers as documented, a sweep leaves no key
  that is expired or refused but the one in use, and the bulk deletion no application without a
  key, as far as the rules of the key in use reach. Both are proved on the store and carried to the
  account by the simulation.
\<close>

section \<open>On the store\<close>

definition swept :: "credential \<Rightarrow> credential list \<Rightarrow> int \<Rightarrow> bool" where
  "swept own cs i \<longleftrightarrow> (\<exists>c \<in> set cs. inactive (cred_status c) \<and> cred_id c \<noteq> cred_id own \<and> cred_id c = i)"

definition swept_turn :: "credential \<Rightarrow> credential \<Rightarrow> turn" where
  "swept_turn own c =
     (if \<not> inactive (cred_status c) then Passed
      else if cred_id c = cred_id own then Failing (cred_id c) codeSelfRevocation else Ended (cred_id c))"

lemma store_sweep:
  assumes "sv_provider srv = store_provider"
    and "\<forall>c \<in> set cs. inactive (cred_status c) \<and> cred_id c \<noteq> cred_id own \<longrightarrow>
      permits own ''DELETE'' (CredentialPath (cred_id c))"
  shows "for_each (sweep_turn srv (Some own)) cs t =
    (map (swept_turn own) cs, t\<lparr>so_credentials := filter (\<lambda>c. \<not> swept own cs (cred_id c)) (so_credentials t)\<rparr>)"
  using assms(2)
proof (induction cs arbitrary: t)
  case Nil
  show ?case by (simp add: swept_def)
next
  case (Cons c cs)
  let ?gone = "inactive (cred_status c) \<and> cred_id c \<noteq> cred_id own"
  let ?t = "if ?gone then t\<lparr>so_credentials := filter (\<lambda>d. cred_id d \<noteq> cred_id c) (so_credentials t)\<rparr> else t"
  have "sweep_turn srv (Some own) c t = (swept_turn own c, ?t)"
    using Cons.prems assms(1)
    by (auto simp: sweep_turn_def swept_turn_def revocationOffer_def revokeOne_def store_provider_def store_Revocable_def
        store_RevokeAgainst_def sweepCode_def reasonSelf_def Let_def)
  moreover have "filter (\<lambda>d. \<not> swept own cs (cred_id d)) (so_credentials ?t) =
      filter (\<lambda>d. \<not> swept own (c # cs) (cred_id d)) (so_credentials t)"
    by (auto simp: swept_def intro: filter_cong)
  ultimately show ?case using Cons by (simp add: Let_def)
qed

definition deleted_turn :: "credential \<Rightarrow> credential list \<Rightarrow> application \<Rightarrow> turn" where
  "deleted_turn own cs a = (if used_by cs (app_id a) > 0 then Passed else Ended (app_id a))"

text \<open>The listing names each application once, so each deletion finds it.\<close>

lemma store_keyless:
  assumes "sv_provider srv = store_provider"
    and "\<forall>a \<in> set as. used_by cs (app_id a) = 0 \<longrightarrow> permits own ''DELETE'' (ApplicationPath (app_id a))"
    and "distinct (map app_id as)" "set as \<subseteq> set (so_applications t)"
  shows "for_each (keyless_turn srv (Some own) cs) as t =
    (map (deleted_turn own cs) as,
     t\<lparr>so_applications := filter (\<lambda>x. \<not> (used_by cs (app_id x) = 0 \<and> app_id x \<in> app_id ` set as)) (so_applications t)\<rparr>)"
  using assms(2-4)
proof (induction as arbitrary: t)
  case (Cons a as)
  let ?free = "used_by cs (app_id a) = 0"
  let ?t = "if ?free then t\<lparr>so_applications := filter (\<lambda>x. app_id x \<noteq> app_id a) (so_applications t)\<rparr> else t"
  have unused: "\<not> list_ex (\<lambda>c. app_id (cred_application c) = app_id a) cs" if ?free
    using that by (simp add: list_ex_iff used_by_zero)
  have found: "length (filter (\<lambda>x. app_id x \<noteq> app_id a) (so_applications t)) \<noteq> length (so_applications t)"
    using Cons.prems(3) by (auto simp: filter_length_eq)
  have "keyless_turn srv (Some own) cs a t = (deleted_turn own cs a, ?t)"
    using Cons.prems(1) assms(1) unused found
    by (auto simp: keyless_turn_def deleted_turn_def deletionOffer_def store_provider_def store_DeletableApplication_def
        store_DeleteApplicationAgainst_def Let_def)
  moreover have "set as \<subseteq> set (so_applications ?t)" using Cons.prems(2,3) by (auto simp: image_iff)
  moreover have "filter (\<lambda>x. \<not> (used_by cs (app_id x) = 0 \<and> app_id x \<in> app_id ` set as)) (so_applications ?t) =
      filter (\<lambda>x. \<not> (used_by cs (app_id x) = 0 \<and> app_id x \<in> app_id ` set (a # as))) (so_applications t)"
    by (auto intro: filter_cong)
  ultimately show ?case using Cons by (simp add: Let_def)
qed simp

section \<open>On the account\<close>

text \<open>The two operations use the provider alone, so any lookup and any catalogue will do.\<close>

definition quiet :: "'w surroundings \<Rightarrow> 'w surroundings" where
  "quiet d = d\<lparr>su_lookup_setting := ''off'', su_catalog := (\<lambda>_. zero_snapshot)\<rparr>"

lemma list_credentials_quiet: "list_credentials (live_server (quiet d)) = list_credentials (live_server d)"
  by (simp add: fun_eq_iff list_credentials_def live_provider_def quiet_def)

lemma revokeInactive_quiet: "revokeInactive (live_server (quiet d)) = revokeInactive (live_server d)"
proof -
  have provider: "live_provider (quiet d) = live_provider d" by (simp add: live_provider_def quiet_def)
  have "revocationOffer (live_server (quiet d)) = revocationOffer (live_server d)"
    "revokeOne (live_server (quiet d)) = revokeOne (live_server d)"
    unfolding fun_eq_iff revocationOffer_def revokeOne_def live_server_simps provider by simp_all
  then have "sweep_turn (live_server (quiet d)) = sweep_turn (live_server d)" by (intro ext) (simp only: sweep_turn_def)
  then show ?thesis
    using list_credentials_quiet [of d] provider by (intro ext) (simp only: revokeInactive_def live_server_simps)
qed

lemma deleteKeyless_quiet:
  "deleteKeylessApplications (live_server (quiet d)) = deleteKeylessApplications (live_server d)"
proof -
  have provider: "live_provider (quiet d) = live_provider d" by (simp add: live_provider_def quiet_def)
  have "deletionOffer (live_server (quiet d)) = deletionOffer (live_server d)"
    unfolding fun_eq_iff deletionOffer_def live_server_simps provider by simp
  then have "keyless_turn (live_server (quiet d)) = keyless_turn (live_server d)"
    using provider by (intro ext) (simp only: keyless_turn_def live_server_simps)
  then show ?thesis
    using list_credentials_quiet [of d] provider
    by (intro ext) (simp only: deleteKeylessApplications_def live_server_simps)
qed

lemma quiet_mirrors:
  assumes "stands_for (su_sdk d) view (su_scheduler d) s t"
  shows "mirrors (quiet d) view (Inl (Failure [])) zero_snapshot s t"
proof -
  have "equal_fold ''off'' ''off''" by code_simp
  then show ?thesis using assms by (simp add: mirrors_def steady_def quiet_def)
qed

lemma store_sweeps:
  assumes "\<forall>c \<in> set (so_credentials t). inactive (cred_status c) \<and> cred_id c \<noteq> cred_id (so_current t) \<longrightarrow>
      permits (so_current t) ''DELETE'' (CredentialPath (cred_id c))"
    and "sv_provider srv = store_provider"
  shows "revokeInactive srv t =
    (Answered 200 (report (map (swept_turn (so_current t)) (so_credentials t))),
     t\<lparr>so_credentials := filter (\<lambda>c. \<not> swept (so_current t) (so_credentials t) (cred_id c)) (so_credentials t)\<rparr>)"
proof -
  have "list_credentials srv t = ((Some (so_credentials t), 0, None), t)"
    using assms(2) by (simp add: list_credentials_def store_provider_def store_List_def list_result_def)
  moreover have "pr_current (sv_provider srv) t = (Inr (so_current t), t)"
    using assms(2) by (simp add: store_provider_def store_Current_def)
  ultimately show ?thesis
    using store_sweep [OF assms(2,1)] by (simp add: revokeInactive_def Let_def)
qed

lemma report_swept:
  "sw_revoked (report (map (swept_turn own) cs)) =
     map cred_id (filter (\<lambda>c. inactive (cred_status c) \<and> cred_id c \<noteq> cred_id own) cs)"
  by (induction cs) (simp_all add: swept_turn_def)

lemma seen_status:
  "sound_account a \<Longrightarrow> k \<in> set (av_keys a) \<Longrightarrow> cred_status (seen_key a k) = ac_status k"
  by (auto simp: seen_key_def read_key_def credential_toDomain_def sound_account_def split: sum.splits)

lemma store_ids: "sound_account a \<Longrightarrow> map cred_id (so_credentials (store_of a)) = map ac_id (av_keys a)"
  by (simp add: store_of_def seen_key_simps)

text \<open>A filter of the keys of the store is one of the keys of the account.\<close>

lemma filter_seen:
  assumes "sound_account a" "\<And>k. k \<in> set (av_keys a) \<Longrightarrow> P (seen_key a k) \<longleftrightarrow> Q k"
  shows "map cred_id (filter P (so_credentials (store_of a))) = map ac_id (filter Q (av_keys a))"
proof -
  have "ks = [] \<or> set ks \<subseteq> set (av_keys a) \<Longrightarrow> map cred_id (filter P (map (seen_key a) ks)) = map ac_id (filter Q ks)" for ks
    by (induction ks) (auto simp: assms seen_key_simps [OF assms(1)])
  from this [of "av_keys a"] show ?thesis by (simp add: store_of_def)
qed

lemma swept_seen:
  assumes "sound_account a" "k \<in> set (av_keys a)"
  shows "swept (so_current (store_of a)) (so_credentials (store_of a)) (ac_id k) \<longleftrightarrow>
    inactive (ac_status k) \<and> ac_id k \<noteq> av_current a"
proof -
  have distinct: "distinct (map ac_id (av_keys a))" using assms(1) by (simp add: sound_account_def)
  have "k' = k" if "k' \<in> set (av_keys a)" "ac_id k' = ac_id k" for k'
    using distinct that assms(2) by (auto simp: distinct_map dest: inj_onD)
  then show ?thesis
    using assms store_current_id [OF assms(1)]
    by (auto simp: swept_def store_of_def seen_key_simps [OF assms(1)] seen_status [OF assms(1)])
qed

definition unusable :: "api_credential \<Rightarrow> bool" where
  "unusable k \<longleftrightarrow> ac_status k = ''expired'' \<or> ac_status k = ''refused''"

lemma unusable_iff: "unusable k \<longleftrightarrow> inactive (ac_status k)"
  by (simp add: unusable_def inactive_def StatusExpired_def StatusRefused_def)



lemma store_deletes_keyless:
  assumes "\<forall>x \<in> set (so_applications t). used_by (so_credentials t) (app_id x) = 0 \<longrightarrow>
      permits (so_current t) ''DELETE'' (ApplicationPath (app_id x))"
    and "distinct (map app_id (so_applications t))" and "sv_provider srv = store_provider"
  shows "deleteKeylessApplications srv t =
    (Answered 200 (report (map (deleted_turn (so_current t) (so_credentials t)) (so_applications t))),
     t\<lparr>so_applications := filter (\<lambda>x. used_by (so_credentials t) (app_id x) \<noteq> 0) (so_applications t)\<rparr>)"
proof -
  have "list_credentials srv t = ((Some (so_credentials t), 0, None), t)"
    using assms(3) by (simp add: list_credentials_def store_provider_def store_List_def list_result_def)
  moreover have "pr_current (sv_provider srv) t = (Inr (so_current t), t)"
    "pr_applications (sv_provider srv) t = ((Some (so_applications t), None), t)"
    using assms(3) by (simp_all add: store_provider_def store_Current_def store_Applications_def)
  moreover have "filter (\<lambda>x. \<not> (used_by (so_credentials t) (app_id x) = 0 \<and> app_id x \<in> app_id ` set (so_applications t)))
      (so_applications t) = filter (\<lambda>x. used_by (so_credentials t) (app_id x) \<noteq> 0) (so_applications t)"
    by (rule filter_cong) auto
  ultimately show ?thesis
    using store_keyless [OF assms(3,1,2) subset_refl] by (simp add: deleteKeylessApplications_def Let_def)
qed

lemma report_deleted:
  "sw_revoked (report (map (deleted_turn own cs) as)) = map app_id (filter (\<lambda>x. used_by cs (app_id x) = 0) as)"
  by (induction as) (simp_all add: deleted_turn_def)

definition keyless :: "api_view \<Rightarrow> int \<Rightarrow> bool" where
  "keyless a i \<longleftrightarrow> (\<forall>k \<in> set (av_keys a). ac_application_id k \<noteq> i)"

lemma keyless_seen: "sound_account a \<Longrightarrow> used_by (so_credentials (store_of a)) i = 0 \<longleftrightarrow> keyless a i"
  by (auto simp: used_by_zero keyless_def store_of_def seen_key_simps)

lemma filter_seen_apps:
  "map app_id (filter (\<lambda>x. P (app_id x)) (so_applications (store_of a))) = map aa_id (filter (\<lambda>x. P (aa_id x)) (av_apps a))"
proof -
  have "map app_id (filter (\<lambda>x. P (app_id x)) (map application_toDomain as)) = map aa_id (filter (\<lambda>x. P (aa_id x)) as)" for as
    by (induction as) simp_all
  then show ?thesis by (simp add: store_of_def)
qed



end
