(* ===== verification/Spec2Isabelle.thy ===== *)
theory Spec2Isabelle
  imports Process Achieved
begin

text \<open>
  Keymaker is a local web application that lists, audits, revokes and creates the API keys of an
  OVHcloud account. This library translates the Go program, file by file, into executable
  definitions and proves what the README and the comments of the code promise of it: what a request
  can change, what the audit reports, what leaves the process, and how the pieces agree. Paths are
  those of the repository.

  \<^bold>\<open>How the program is put together.\<close> \<open>cmd/keymaker\<close> reads the environment and \<open>ovh.conf\<close>, makes two
  random tokens and builds one HTTP server. A request passes the security headers, the access token
  (\<open>authenticate\<close>), the token of the page (\<open>guardMutations\<close>) and the router, and reaches a handler of
  \<open>internal/httpapi\<close>. Handlers speak to a \<open>credential.Provider\<close>: the legacy one of \<open>internal/legacy\<close>,
  which speaks to the API through the client of \<open>internal/ovh\<close>, or the in-memory store of
  \<open>tools/demo\<close>. The inventory is annotated by \<open>internal/audit\<close>, whose reading of access rules is that
  of \<open>internal/credential\<close>. The explorer reads the catalogue of \<open>internal/catalog\<close>, refreshed in the
  background over the same client and embedded by \<open>tools/snapshotgen\<close>. The address lookup of
  \<open>internal/publicip\<close> serves the address screen; every log line passes \<open>internal/logging\<close>.

  \<^bold>\<open>Conventions.\<close> A Go string is a \<open>string\<close>, read as its bytes. Times and durations are integers of
  nanoseconds, and an \<open>int64\<close> is an \<open>int\<close> with its bounds checked or its wrap-around written out
  (\<open>parse_int64\<close>, \<open>wrap64\<close>); addresses are 32- and 128-bit words. Nanosecond \<open>Duration\<close> arithmetic of
  the audit stays far from its bounds and is exact. A nil pointer is \<open>None\<close>; a method
  with effects is an \<open>('s, 'a) op\<close>, a function of the state that answers a value and the new state;
  \<open>(T, error)\<close> is \<open>err + T\<close> where the value is unused on errors, and the pair where both are read.
  An \<open>err\<close> keeps what \<open>errors.Is\<close> and \<open>errors.As\<close> can see of an error and drops its wording.

  \<^bold>\<open>Theories, bottom up.\<close>
  \<^item> \<open>Prelude\<close>, \<open>Go_Strings\<close>, \<open>Go_Netip\<close>, \<open>Go_Netip_Text\<close>, \<open>Go_Net\<close>: what the code uses of Go's
    \<open>strings\<close>, \<open>strconv\<close>, \<open>net/url\<close>, \<open>encoding/base64\<close>, \<open>net/netip\<close> and \<open>net\<close>: splitting, trimming, integers, escaping
    and its round trips; addresses and blocks, their masking and containment, and the round trip of
    their text, the shortest form of IPv6 included.
  \<^item> \<open>Go_Errors\<close>, \<open>Provider\<close>: the errors of \<open>internal/credential\<close> with \<open>errors.Is\<close>; the \<open>Provider\<close>
    interface as a record of operations, and its contract as the locale \<open>provider_contract\<close>.
  \<^item> \<open>Credential\<close>: \<open>internal/credential\<close>, the domain types and \<open>Permits\<close>, proved to be matching of
    patterns whose star stands for any run of characters.
  \<^item> \<open>Ovh_Rules\<close>, \<open>Ovh_Client\<close>, \<open>Pacing\<close>: \<open>internal/ovh\<close>, the rule sets and the token-creation link;
    the client over an SDK transport, with retries and the wire format; the transport that waits out
    a rate limit.
  \<^item> \<open>Legacy\<close>: \<open>internal/legacy/provider.go\<close>, every method of the provider, its pool of readers and
    the deletions with their guards.
  \<^item> \<open>Key_Audit\<close>: \<open>internal/audit\<close>, the examination of one key, the surplus of the tool's own key, the
    twins and the summary.
  \<^item> \<open>Catalog\<close>, \<open>Catalog_Run\<close>, \<open>Snapshots\<close>: \<open>internal/catalog\<close> and \<open>tools/snapshotgen\<close>, from a schema
    to a route to an access rule; fetching; the goroutine that refreshes the running catalogue; the
    generator and the snapshot it embeds.
  \<^item> \<open>Public_Ip\<close>, \<open>Redact\<close>, \<open>Config\<close>: \<open>internal/publicip\<close>, \<open>internal/logging\<close>, \<open>internal/config\<close>.
  \<^item> \<open>Http_Reply\<close>, \<open>Http_Revoke\<close>, \<open>Http_Applications\<close>, \<open>Http_Addresses\<close>, \<open>Http_Inventory\<close>,
    \<open>Http_Explorer\<close>, \<open>Http_Server\<close>: \<open>internal/httpapi\<close>, the handlers file by file and the way of a
    request through the server; a sequence of requests is the relation \<open>requests\<close>.
  \<^item> \<open>Live\<close>, \<open>Startup\<close>, \<open>Process\<close>: \<open>cmd/keymaker\<close>, the server over the legacy provider and the
    network (\<open>live_server\<close>), what a process reads and holds once started, its command line, its end,
    and the line logged for a request.
  \<^item> \<open>Demo\<close>, \<open>Demo_Run\<close>: \<open>tools/demo\<close>, the in-memory account and its server, with an invariant over
    every sequence of requests.
  \<^item> \<open>Refinement\<close>, \<open>Simulation\<close>, \<open>Achieved\<close>: the legacy provider, over an API that serves what it
    documents, answers and changes an account as the in-memory store does; so does the whole server,
    request after request; and what its bulk operations then achieve.
  \<^item> this theory: the properties of the live server that span the components.

  \<^bold>\<open>Interfaces.\<close> \<open>effect_frame\<close> is a relation \<open>only E s t\<close>: from \<open>s\<close> to \<open>t\<close> the outside changed by effects of
  \<open>E\<close> alone. On it stand the contract of the client (\<open>client_contract\<close>), of the provider
  (\<open>provider_contract\<close>), of the lookup (\<open>address_resolver\<close>), and, joining the two last, of what a
  handler may rely on (\<open>http_server\<close>), in which the lemmas of every handler are proved once.
  \<open>Legacy\<close> derives the second from the first by a \<open>sublocale\<close>. \<open>Live\<close> interprets \<open>http_server\<close> over
  the network, where the frame is the log of the calls sent (\<open>sent_only\<close>), and \<open>Demo\<close> over the store,
  where it is the account itself (\<open>store_only\<close>). \<open>implements_store\<close> and \<open>same_server\<close> are relational:
  a provider, and a server, that cannot be told from the in-memory ones; both are interpreted on the
  server of a process. \<open>comparator\<close> is what makes a comparison function sort.

  \<^bold>\<open>The outside.\<close> An SDK call is an argument, \<open>'w sdk\<close>: any function of the call and a world of any
  type. It may change that world in any way, so what other clients of the account do between two
  calls of ours is covered by each theorem over \<open>live_server\<close>. Other arguments are the decoder of
  JSON (a body arrives decoded, or not), \<open>url.Parse\<close>, \<open>http.ParseTime\<close>, the random bytes, the file
  system, the environment, the clock and the order in which pooled readers take their work
  (\<open>scheduler\<close>); theorems ask of a schedule only that it is fair.

  \<^bold>\<open>Bounds.\<close> A call is sent again as often as \<open>rateLimitAttempts = 4\<close> and the two attempts of a read
  allow: eight sends of a read and four of a write at most (\<open>calls_are_bounded\<close>); the loops run on
  these counts and end. The transport waits at most ten seconds after each refusal. The parser of
  IPv6 literals makes eight turns, one for each group of an address. The refresh loop has no bound
  in the code and none here: it is a \<open>partial_function\<close>, and when it ends is a theorem.

  \<^bold>\<open>What the theorems show.\<close> Safety: no request without the session does anything, a request with it
  changes only what it names, the key in use ends only by its retirement, bulk operations end only
  what the listing shows as inactive or keyless, and a list of addresses is written to the key in use
  only if it is empty or holds the address just looked up. Completeness: listings, sweeps and
  inventories account for every key, and where the API answers as documented a sweep and a bulk
  deletion leave nothing of what they are for. Audit: a rule permits exactly the calls its pattern describes,
  and no key that reaches a sensitive branch goes without a finding. Secrets: neither secret of the
  account reaches a log, and the line of a request carries nothing of its query, cookie or body.
  Data: round trips of the configuration, of address lists, of links and of snapshots. Ordering: the
  catalogue never goes back to the snapshot, whatever requests and refresh interleave. Refinement:
  the provider, and the server over it, against the in-memory account. Where the code departs from
  its documentation, a lemma or a property shows the case.

  \<^bold>\<open>Not modelled.\<close> JSON text itself; the wording of errors and log lines (what they may carry is in
  \<open>Redact\<close> and \<open>Process\<close>); the HTTP transport, its time limits, and the matching of header names; the
  files of the interface under \<open>internal/web\<close>, which are served as they are; cancellation of a
  request half way through a handler, beyond the calls that fail by it; the data race freedom of the
  mutexes, each critical section being one step. The parsing of HTTP dates and of URLs given by the
  operator are arguments.
\<close>

section \<open>Ending keys\<close>

text \<open>
  C4: A revocation asks the API for one deletion at most, that of the key the request names, and
  never when this is the key the tool authenticates with, nor when the API does not say which key
  that is: every other request it sends is a read.
\<close>

theorem revoke_spares_key_in_use:
  "sent_only {RevokeKey i | i. parse_int64 path_id = Some i \<and> (\<exists>own. key_in_use d s = Some own \<and> own \<noteq> i)}
     s (snd (revoke (live_server d) path_id s))"
  by (rule sent_only_mono [OF live.revoke_only]) auto

text \<open>
  Asked to revoke the key in use, the server answers a conflict with the code of its own and
  deletes nothing, whatever the interface was showing.
\<close>

lemma revoke_refuses_key_in_use:
  assumes "parse_int64 path_id = Some i" "key_in_use d s = Some i"
  shows "fst (revoke (live_server d) path_id s) = Refused 409 ''self-revocation'' [] \<and>
         sent_only {} s (snd (revoke (live_server d) path_id s))"
proof
  show "fst (revoke (live_server d) path_id s) = Refused 409 ''self-revocation'' []"
    using live.revoke_self_refused [OF assms] by (simp add: codeSelfRevocation_def)
  show "sent_only {} s (snd (revoke (live_server d) path_id s))"
    by (rule sent_only_mono [OF live.revoke_only]) (use assms in auto)
qed

lemma revoke_refuses_key_in_use_witness:
  "fst (revoke (live_server small) ''5'' small_account) = Refused 409 ''self-revocation'' [] \<and>
   sent_only {} small_account (snd (revoke (live_server small) ''5'' small_account))"
  by (rule revoke_refuses_key_in_use [where i = 5]) code_simp+


text \<open>
  C24: Every key the sweep selects is accounted for: the answer names each expired or refused key
  of the list once, as revoked or as failed with a code, and names no other.
\<close>

theorem sweep_accounts_for_every_key:
  assumes "fst (revokeInactive (live_server d) s) = Answered n done"
  shows "mset (sw_revoked done) + mset (map fst (sw_failed done)) =
           mset (map cred_id (filter (\<lambda>c. inactive (cred_status c)) (listed_keys d s)))"
proof -
  obtain current s2 where
    "done = report (fst (for_each (sweep_turn (live_server d) current) (listed_keys d s) s2))"
    using assms
    by (auto simp: listed_keys_def revokeInactive_def Let_def split_beta failInventory_def fail_with_def
        split: option.splits if_splits)
  then show ?thesis by (simp only: sweep_reports_all)
qed

theorem sweep_accounts_for_every_key_witness:
  "mset [7 :: int] + mset (map fst ([] :: (int \<times> string) list)) =
     mset (map cred_id (filter (\<lambda>c. inactive (cred_status c)) (listed_keys small small_account)))"
proof -
  have "fst (revokeInactive (live_server small) small_account) =
      Answered 200 \<lparr>sw_revoked = [7], sw_failed = []\<rparr>"
    by code_simp
  from sweep_accounts_for_every_key [OF this] show ?thesis by simp
qed

text \<open>
  C20: Retiring asks the API to delete no key but the one in use, as the API names it at that
  moment, and otherwise to log that key out; without an identity it writes nothing.
\<close>

theorem retire_ends_only_key_in_use:
  "sent_only (if key_in_use d s = None then {}
              else {RevokeKey (the (key_in_use d s)), ExpireKeyInUse})
     s (snd (retire (live_server d) s))"
proof (cases "key_in_use d s")
  case None
  then have "sent_only {} s (snd (pr_retire (sv_provider (live_server d)) s))"
    using live.retire_unidentified [of d s] by blast
  then show ?thesis using None by (simp add: retire_def Let_def split_beta)
next
  case (Some i)
  then show ?thesis
    using live.retire_only [of d s] by (simp add: insert_commute Collect_conv_if)
qed

section \<open>Rewriting addresses\<close>



text \<open>
  The preview of a list runs the checks of the write and writes nothing: every request it
  makes is a read, and it answers what the write would, a refusal of the write itself apart.
\<close>

lemma preview_writes_nothing:
  "sent_only {} s (snd (previewAddresses (live_server d) path_id body s)) \<and>
   (fst (previewAddresses (live_server d) path_id body s) =
      fst (setAddresses (live_server d) path_id body s) \<or>
    (\<exists>e. fst (setAddresses (live_server d) path_id body s) = failAddresses e))"
proof
  show "sent_only {} s (snd (previewAddresses (live_server d) path_id body s))"
    by (rule live.preview_only)
  have written: "fst (write_addresses srv False i ps seen t) = fst (write_addresses srv True i ps seen t) \<or>
      (\<exists>e. fst (write_addresses srv True i ps seen t) = failAddresses e)"
    for srv :: "'a net server" and i ps seen t
    by (auto simp: write_addresses_def Let_def split_beta split: option.split)
  have change: "fst (change_addresses srv False cur target ps t) =
        fst (change_addresses srv True cur target ps t) \<or>
      (\<exists>e. fst (change_addresses srv True cur target ps t) = failAddresses e)"
    for srv :: "'a net server" and cur target ps t
    using written by (simp add: change_addresses_def Let_def split_beta split: sum.split)
  show "fst (previewAddresses (live_server d) path_id body s) =
      fst (setAddresses (live_server d) path_id body s) \<or>
    (\<exists>e. fst (setAddresses (live_server d) path_id body s) = failAddresses e)"
    using change
    by (simp add: previewAddresses_def setAddresses_def addresses_def Let_def split_beta
        split: option.split sum.split)
qed

section \<open>The way in\<close>

text \<open>
  Nothing is written without both tokens: a request that does not carry the access token in
  its cookie, or does not carry the token of the page, or is a read by its method, makes the
  server send reads to the API at most.
\<close>

lemma write_needs_both_tokens:
  assumes "hr_cookie r \<noteq> Some (su_token d) \<or> hr_csrf r \<noteq> su_csrf d \<or> hr_method r = ''GET'' \<or> hr_method r = ''HEAD''"
  shows "sent_only {} s (snd (live_handle d now r s))"
proof -
  have none: "{e. authorised (live_server d) r \<and> asks r e} = {}"
    using assms by (auto simp: authorised_def get_method_def)
  show ?thesis
    using live.handle_asked [of d r s "su_endpoints d" now] unfolding none live_handle_def .
qed

lemma write_needs_both_tokens_witness:
  "sent_only {} small_account (snd (live_handle small 9
     \<lparr>hr_method = ''DELETE'', hr_raw_path = ''/api/credentials/7'', hr_query = [], hr_cookie = Some ''tok'',
      hr_csrf = [], hr_addresses = None, hr_rules = None\<rparr> small_account))"
  by (rule write_needs_both_tokens) code_simp

text \<open>
  C1: Over any number of requests, in any order and at any times, the writes the API is sent are
  among those named by requests that carried both tokens and were no read by their method: what
  other requests say, and how they interleave with these, adds none.
\<close>

theorem runs_do_only_what_was_asked:
  assumes "requests (su_endpoints d) (live_server d) kind s t"
  shows "sent_only {e. \<exists>r. kind r \<and> hr_cookie r = Some (su_token d) \<and> hr_csrf r = su_csrf d \<and>
             hr_method r \<noteq> ''GET'' \<and> hr_method r \<noteq> ''HEAD'' \<and> asks r e} s t"
  by (rule sent_only_mono [OF live.requests_asked [OF assms]]) (auto simp: authorised_def get_method_def)

theorem runs_do_only_what_was_asked_witness:
  "\<exists>t. requests (su_endpoints small) (live_server small) (\<lambda>r. hr_cookie r = None) small_account t \<and>
       sent_only {} small_account t"
proof (intro exI conjI)
  let ?r = "\<lparr>hr_method = ''DELETE'', hr_raw_path = ''/api/credentials/7'', hr_query = [], hr_cookie = None,
              hr_csrf = su_csrf small, hr_addresses = None, hr_rules = None\<rparr>"
  let ?one = "snd (handle (su_endpoints small) (live_server small) 9 ?r small_account)"
  let ?two = "snd (handle (su_endpoints small) (live_server small) 8 ?r ?one)"
  show run: "requests (su_endpoints small) (live_server small) (\<lambda>r. hr_cookie r = None) small_account ?two"
    by (intro requests.intros) simp_all
  show "sent_only {} small_account ?two"
    by (rule sent_only_mono [OF runs_do_only_what_was_asked [OF run]]) simp
qed

text \<open>
  C10: Without the session cookie a request reaches no handler but the health endpoint, and makes
  no call at all: it is refused, or handed its cookie when it carries the access token in its
  query, or, on the health path, answered there.
\<close>

theorem no_session_no_handler:
  assumes "hr_cookie r \<noteq> Some (su_token d)"
  shows "snd (live_handle d now r s) = s \<and>
         (snd (fst (live_handle d now r s)) = Unauthorized \<or>
          (query_get (hr_query r) ''token'' = su_token d \<and>
             snd (fst (live_handle d now r s)) = grant (live_server d) r) \<or>
          (url_path r = ''/healthz'' \<and> snd (fst (live_handle d now r s)) \<in> health_outcomes))"
proof (cases "url_path r = healthPath")
  case True
  with health_only [OF this, of "su_endpoints d" "live_server d" now s] show ?thesis
    by (auto simp: live_handle_def handle_def authenticate_def Let_def split_beta healthPath_def)
next
  case False
  with assms show ?thesis
    by (auto simp: live_handle_def handle_def authenticate_def tokenMatches_def tokenParameter_def
        Let_def split: option.split)
qed

theorem no_session_no_handler_witness:
  "let r = \<lparr>hr_method = ''GET'', hr_raw_path = ''/api/inventory'', hr_query = [(''token'', ''guess'')],
            hr_cookie = None, hr_csrf = [], hr_addresses = None, hr_rules = None\<rparr>
   in snd (live_handle small 9 r small_account) = small_account \<and>
      snd (fst (live_handle small 9 r small_account)) = Unauthorized"
proof -
  let ?r = "\<lparr>hr_method = ''GET'', hr_raw_path = ''/api/inventory'', hr_query = [(''token'', ''guess'')],
            hr_cookie = None, hr_csrf = [], hr_addresses = None, hr_rules = None\<rparr>"
  have "hr_cookie ?r \<noteq> Some (su_token small)" by simp
  note all = no_session_no_handler [OF this, of 9 small_account]
  have "query_get (hr_query ?r) ''token'' \<noteq> su_token small" "url_path ?r \<noteq> ''/healthz''"
    by code_simp+
  with all show ?thesis by (simp add: Let_def)
qed


section \<open>Deleting applications\<close>

text \<open>
  C14: The bulk deletion asks for the deletion of no application that a key of the listing it made
  points at, and of none the listing of applications did not name; beyond those deletions it
  only reads.
\<close>

theorem keyless_deletion_spares_used:
  "sent_only {DeleteApp i | i. i \<in> app_id ` set (listed_applications d s) \<and>
       i \<notin> (\<lambda>c. app_id (cred_application c)) ` set (keys_after_applications d s)}
     s (snd (deleteKeylessApplications (live_server d) s))" (is "sent_only ?E s _")
proof -
  let ?apps = "pr_applications (sv_provider (live_server d)) s"
  let ?list = "list_credentials (live_server d) (snd ?apps)"
  let ?own = "pr_current (sv_provider (live_server d)) (snd ?list)"
  have apps: "?apps = ((fst (fst ?apps), snd (fst ?apps)), snd ?apps)" by simp
  have list: "?list = ((fst (fst ?list), fst (snd (fst ?list)), snd (snd (fst ?list))), snd ?list)" by simp
  have own: "?own = (fst ?own, snd ?own)" by simp
  have "keyless_targets (live_server d) (right_value (fst ?own)) (slice (fst (fst ?list))) (slice (fst (fst ?apps)))
      \<subseteq> ?E"
  proof
    fix x assume "x \<in> keyless_targets (live_server d) (right_value (fst ?own)) (slice (fst (fst ?list)))
        (slice (fst (fst ?apps)))"
    then obtain a where "x = DeleteApp (app_id a)" "a \<in> set (listed_applications d s)"
      "\<forall>c \<in> set (keys_after_applications d s). app_id (cred_application c) \<noteq> app_id a"
      by (auto simp: keyless_targets_def used_by_zero listed_applications_def keys_after_applications_def)
    then show "x \<in> ?E" by (auto simp: image_iff dest: bspec)
  qed
  with sent_only_mono [OF live.deleteKeyless_only [OF apps list own]] show ?thesis by blast
qed

text \<open>
  Every application the bulk deletion selects is accounted for: the answer names each listed
  application without a listed key once, as deleted or as failed with a code, and names no other.
\<close>

lemma keyless_deletion_accounts:
  assumes "fst (deleteKeylessApplications (live_server d) s) = Answered n done"
  shows "mset (sw_revoked done) + mset (map fst (sw_failed done)) =
           mset (map app_id (filter (\<lambda>a. app_id a \<notin>
             (\<lambda>c. app_id (cred_application c)) ` set (keys_after_applications d s))
             (listed_applications d s)))"
proof -
  obtain current s2 where
    "done = report (fst (for_each (keyless_turn (live_server d) current (keys_after_applications d s))
       (listed_applications d s) s2))"
    using assms
    by (auto simp: listed_applications_def keys_after_applications_def deleteKeylessApplications_def
        Let_def split_beta fail_with_def split: option.splits if_splits)
  moreover have "used_by cs i = 0 \<longleftrightarrow> i \<notin> (\<lambda>c. app_id (cred_application c)) ` set cs" for cs i
    by (auto simp: used_by_zero)
  ultimately show ?thesis by (simp only: keyless_reports_all)
qed

lemma keyless_deletion_accounts_witness:
  "mset [2 :: int] + mset (map fst ([] :: (int \<times> string) list)) =
     mset (map app_id (filter (\<lambda>a. app_id a \<notin>
       (\<lambda>c. app_id (cred_application c)) ` set (keys_after_applications small small_account))
       (listed_applications small small_account)))"
proof -
  have "fst (deleteKeylessApplications (live_server small) small_account) =
      Answered 200 \<lparr>sw_revoked = [2], sw_failed = []\<rparr>"
    by code_simp
  from keyless_deletion_accounts [OF this] show ?thesis by simp
qed

text \<open>
  C21: Deleting one application is refused while a key the listing read belongs to it: the answer
  is a conflict with its own code, and every request sent is a read.
\<close>

theorem application_in_use_is_kept:
  assumes "parse_int64 path_id = Some i"
    and "pr_list (live_provider d) [] s = ((Some keys, e), s1)"
    and "c \<in> set keys" "app_id (cred_application c) = i"
  shows "fst (deleteApplication (live_server d) path_id s) = Refused 409 ''application-in-use'' [] \<and>
         sent_only {} s (snd (deleteApplication (live_server d) path_id s))"
proof -
  have list: "legacy_List (su_scheduler d) (api_client (su_sdk d)) [] s = ((Some keys, e), s1)"
    using assms(2) by (simp add: live_provider_def legacy_provider_def)
  have "list_ex (\<lambda>c. app_id (cred_application c) = i) keys"
    using assms(3,4) by (auto simp: list_ex_iff)
  then have del: "pr_delete_application (live_provider d) i s = (Some (Sentinel ErrApplicationInUse), s1)"
    using list
    by (simp add: live_provider_def legacy_provider_def legacy_DeleteApplication_def
        legacy_DeleteApplicationAgainst_def)
  have "sent_only {} s s1" using live.list_frame [where st = "[]" and d = d and s = s] assms(2) by simp
  then show ?thesis
    using assms(1) del
    by (simp add: deleteApplication_def failApplicationDeletion_def codeApplicationInUse_def)
qed

theorem application_in_use_is_kept_witness:
  "fst (deleteApplication (live_server small) ''1'' small_account) = Refused 409 ''application-in-use'' []"
proof -
  let ?list = "pr_list (live_provider small) [] small_account"
  have "parse_int64 ''1'' = Some 1" by code_simp
  moreover have "?list = ((Some (the (fst (fst ?list))), snd (fst ?list)), snd ?list)"
  proof -
    have "fst (fst ?list) \<noteq> None" by code_simp
    then show ?thesis by (metis option.collapse prod.collapse)
  qed
  moreover have "hd (the (fst (fst ?list))) \<in> set (the (fst (fst ?list)))"
    "app_id (cred_application (hd (the (fst (fst ?list))))) = 1"
    by code_simp+
  ultimately show ?thesis by (rule application_in_use_is_kept [THEN conjunct1])
qed

section \<open>The inventory\<close>

text \<open>
  C23: The inventory shows every key the listing read, once, the last used first, those never used
  at the end and equal ones by decreasing identifier. It marks as its own the key in use and no
  other, and offers no revocation of it. The read changes nothing.
\<close>

theorem inventory_shows_every_key:
  assumes "fst (inventory (live_server d) now s) = Answered n answer"
  shows "mset (map cv_id (in_credentials answer)) = mset (map cred_id (listed_keys d s)) \<and>
         sorted_wrt shown_before (in_credentials answer) \<and>
         (\<forall>v \<in> set (in_credentials answer).
            (cv_self v \<longleftrightarrow> key_in_use d s = Some (cv_id v)) \<and> \<not> (cv_self v \<and> of_allowed (cv_revoke v))) \<and>
         sent_only {} s (snd (inventory (live_server d) now s))"
proof -
  have eq: "inventory (live_server d) now s = (Answered n answer, snd (inventory (live_server d) now s))"
    using assms by (metis prod.collapse)
  obtain own s1 listed unreadable s2 where
    own: "pr_current (live_provider d) s = (own, s1)"
    and list: "list_credentials (live_server d) s1 = ((listed, unreadable, None), s2)"
    and shown: "in_credentials answer = sort_func compare_views
       (map (view_of (live_server d) (right_value own) (slice listed) now) (slice listed))"
    by (rule inventory_answer [OF eq]) simp
  have keys: "listed_keys d s = slice listed" by (simp add: listed_keys_def own list)
  have "mset (map cv_id (in_credentials answer)) =
      image_mset cv_id (mset (map (view_of (live_server d) (right_value own) (slice listed) now) (slice listed)))"
    by (simp only: shown mset_map mset_sort_func)
  also have "\<dots> = mset (map cred_id (listed_keys d s))"
    by (simp add: keys multiset.map_comp comp_def)
  finally have ids: "mset (map cv_id (in_credentials answer)) = mset (map cred_id (listed_keys d s))" .
  have order: "sorted_wrt shown_before (in_credentials answer)"
    using views.ordered_sort by (simp add: shown compare_views_before)
  have identity: "key_in_use d s = map_option cred_id (right_value own)"
    using live.current_identity [where d = d and s = s] live.current_unidentified [where d = d and s = s] own
    by (cases own) simp_all
  have self: "(cv_self v \<longleftrightarrow> key_in_use d s = Some (cv_id v)) \<and> \<not> (cv_self v \<and> of_allowed (cv_revoke v))"
    if v: "v \<in> set (in_credentials answer)" for v
  proof -
    obtain c where "v = view_of (live_server d) (right_value own) (slice listed) now c"
      using v by (auto simp: shown)
    then show ?thesis
      by (cases "right_value own") (simp_all add: identity view_of_def describe_def revocationOffer_def)
  qed
  show ?thesis using ids order self live.inventory_only by blast
qed

theorem inventory_shows_every_key_witness:
  "\<exists>answer. fst (inventory (live_server small) 9 small_account) = Answered 200 answer \<and>
     mset (map cv_id (in_credentials answer)) = mset (map cred_id (listed_keys small small_account)) \<and>
     map cred_id (listed_keys small small_account) = [5, 7]"
proof -
  obtain answer where answer: "fst (inventory (live_server small) 9 small_account) = Answered 200 answer"
    using small_inventory by blast
  have "map cred_id (listed_keys small small_account) = [5, 7]" by code_simp
  with inventory_shows_every_key [OF answer, THEN conjunct1] answer show ?thesis by (intro exI conjI)
qed

text \<open>
  The order of the list does not depend on the sorting algorithm: with distinct identifiers,
  any arrangement of the same views in which each stands before the later ones by last use and
  identifier is the one shown.
\<close>

lemma inventory_order_is_unique:
  assumes "fst (inventory (live_server d) now s) = Answered n answer"
    and "distinct (map cred_id (listed_keys d s))"
    and "mset shown = mset (in_credentials answer)" "sorted_wrt shown_before shown"
  shows "shown = in_credentials answer"
proof -
  have eq: "inventory (live_server d) now s = (Answered n answer, snd (inventory (live_server d) now s))"
    using assms(1) by (metis prod.collapse)
  obtain own s1 listed unreadable s2 where
    own: "pr_current (live_provider d) s = (own, s1)"
    and list: "list_credentials (live_server d) s1 = ((listed, unreadable, None), s2)"
    and views: "in_credentials answer = sort_func compare_views
       (map (view_of (live_server d) (right_value own) (slice listed) now) (slice listed))"
    by (rule inventory_answer [OF eq]) simp
  let ?vs = "map (view_of (live_server d) (right_value own) (slice listed) now) (slice listed)"
  have "distinct (map cv_id ?vs)"
    using assms(2) by (simp add: listed_keys_def own list comp_def)
  then have inj: "inj_on cv_id (set ?vs)" by (simp only: distinct_map)
  have set: "set shown = set ?vs"
    using mset_eq_setD [OF assms(3)] by (simp only: views set_sort_func)
  show ?thesis
  proof (rule views.ordered_unique)
    show "sorted_wrt (\<lambda>x y. compare_views x y \<le> 0) shown"
      using assms(4) by (simp add: compare_views_before)
    show "sorted_wrt (\<lambda>x y. compare_views x y \<le> 0) (in_credentials answer)"
      using views.ordered_sort by (simp add: views)
    show "mset shown = mset (in_credentials answer)" by (rule assms(3))
    fix x y assume "x \<in> set shown" "y \<in> set shown" "compare_views x y \<le> 0" "compare_views y x \<le> 0"
    then show "x = y"
      using inj set shown_before_antisym unfolding compare_views_before by (metis inj_onD)
  qed
qed

lemma inventory_order_is_unique_witness:
  "\<exists>answer. fst (inventory (live_server small) 9 small_account) = Answered 200 answer \<and>
     sort_func compare_views (rev (in_credentials answer)) = in_credentials answer"
proof -
  obtain answer where answer: "fst (inventory (live_server small) 9 small_account) = Answered 200 answer"
    using small_inventory by blast
  have d: "distinct (map cred_id (listed_keys small small_account))" by code_simp
  have "sort_func compare_views (rev (in_credentials answer)) = in_credentials answer"
    by (rule inventory_order_is_unique [OF answer d])
      (use views.ordered_sort in \<open>simp_all add: compare_views_before\<close>)
  with answer show ?thesis by blast
qed

text \<open>
  The figures of the inventory count keys: those listed, those the audit reads, those that
  raised a finding, those that raised each finding, the two findings over the set included, and
  beside them the keys the listing could not read.
\<close>

lemma inventory_summary_counts_keys:
  assumes "fst (inventory (live_server d) now s) = Answered n answer"
  shows "\<exists>current. in_current answer = map_option cred_id current \<and>
     sm_total (in_summary answer) = int (length (listed_keys d s)) \<and>
     sm_examined (in_summary answer) = int (length (filter Examines (listed_keys d s))) \<and>
     sm_flagged (in_summary answer) =
       int (length (filter (\<lambda>c. findings_of current (listed_keys d s) now c \<noteq> []) (listed_keys d s))) \<and>
     (\<forall>k. sm_counts (in_summary answer) k =
       int (length (filter (\<lambda>c. k \<in> fi_code ` set (findings_of current (listed_keys d s) now c)) (listed_keys d s))))"
proof -
  have eq: "inventory (live_server d) now s = (Answered n answer, snd (inventory (live_server d) now s))"
    using assms by (metis prod.collapse)
  obtain own s1 listed unreadable s2 where
    own: "pr_current (live_provider d) s = (own, s1)"
    and list: "list_credentials (live_server d) s1 = ((listed, unreadable, None), s2)"
    and summary: "in_summary answer = (summarise (slice listed)
       (map (findings_of (right_value own) (slice listed) now) (slice listed)))\<lparr>sm_unreadable := unreadable\<rparr>"
    and current: "in_current answer = map_option cred_id (right_value own)"
    by (rule inventory_answer [OF eq]) simp
  have keys: "listed_keys d s = slice listed" by (simp add: listed_keys_def own list)
  show ?thesis
    by (rule exI [of _ "right_value own"])
      (simp add: keys summary current summarise_counts [OF refl], simp add: summarise_def Let_def)
qed

lemma inventory_summary_counts_keys_witness:
  "\<exists>answer. fst (inventory (live_server small) 9 small_account) = Answered 200 answer \<and>
     sm_total (in_summary answer) = int (length (listed_keys small small_account)) \<and>
     length (listed_keys small small_account) = 2"
proof -
  obtain answer where answer: "fst (inventory (live_server small) 9 small_account) = Answered 200 answer"
    using small_inventory by blast
  have "length (listed_keys small small_account) = 2" by code_simp
  with inventory_summary_counts_keys [OF answer] answer show ?thesis by blast
qed

section \<open>Behaviour on calls that fail\<close>



end
